theory Spec2Isabelle
  imports Complex_Main "HOL-Library.AList"
begin

section \<open>Conventions of the embedding\<close>

text \<open>
  Python floats are embedded as the real numbers: the value of every arithmetic
  operation is exact, so rounding is outside the embedding.

  Exceptions are values. A function of the source that can raise returns
  \<open>py_error + 'a\<close>, with \<open>Inl\<close> for the exception. The power \<open>x ** n\<close> of a
  Python float raises \<open>OverflowError\<close> when its result is beyond the largest double,
  \<open>float_max\<close>; that branch is part of the embedding.

  Two kinds of division occur in the source. Between two Python floats, division by zero
  raises \<open>ZeroDivisionError\<close>. As soon as one operand is a numpy scalar (everything
  that has gone through \<open>scipy.special.factorial\<close> is one), division by zero raises
  nothing and yields an infinity or NaN. The embedding has no such values: it stops
  there with the marker \<open>NonFiniteFloat\<close>, which is not an exception and says
  nothing about how the source goes on.
\<close>

datatype py_error =
    ZeroDivisionError
  | OverflowError
  | KeyError string
  | TypeError
  | IndexError
  | LibraryError string
  | NonFiniteFloat

definition and_then :: "'e + 'a \<Rightarrow> ('a \<Rightarrow> 'e + 'b) \<Rightarrow> 'e + 'b" where
  "and_then m f = (case m of Inl e \<Rightarrow> Inl e | Inr v \<Rightarrow> f v)"

definition py_div :: "real \<Rightarrow> real \<Rightarrow> py_error + real" where
  "py_div x y = (if y = 0 then Inl ZeroDivisionError else Inr (x / y))"

definition np_div :: "real \<Rightarrow> real \<Rightarrow> py_error + real" where
  "np_div x y = (if y = 0 then Inl NonFiniteFloat else Inr (x / y))"

text \<open>The largest finite double, \<open>(2 - 2\<^sup>-\<^sup>5\<^sup>2) * 2\<^sup>1\<^sup>0\<^sup>2\<^sup>3\<close>.\<close>

definition float_max :: real where
  "float_max = (2 ^ 53 - 1) * 2 ^ 971"

text \<open>\<open>x ** n\<close> for a float \<open>x\<close> and an int \<open>n\<close>: \<open>OverflowError\<close> when the result
  is beyond the largest double, \<open>ZeroDivisionError\<close> for a negative power of zero.\<close>

definition py_pow :: "real \<Rightarrow> int \<Rightarrow> py_error + real" where
  "py_pow x n =
     (if 0 \<le> n then
        (if float_max < \<bar>x ^ nat n\<bar> then Inl OverflowError else Inr (x ^ nat n))
      else if x = 0 then Inl ZeroDivisionError
      else if float_max < \<bar>1 / x ^ nat (- n)\<bar> then Inl OverflowError
      else Inr (1 / x ^ nat (- n)))"

text \<open>\<open>scipy.special.factorial\<close>: zero on negative arguments.\<close>

definition sp_factorial :: "int \<Rightarrow> real" where
  "sp_factorial n = (if n < 0 then 0 else fact (nat n))"

text \<open>A list comprehension whose elements may raise: the first exception ends it.\<close>

fun collect :: "('e + 'a) list \<Rightarrow> 'e + 'a list" where
  "collect [] = Inr []"
| "collect (x # xs) =
     (case x of Inl e \<Rightarrow> Inl e
      | Inr v \<Rightarrow> (case collect xs of Inl e \<Rightarrow> Inl e | Inr vs \<Rightarrow> Inr (v # vs)))"

section \<open>Analytic queue model (queue_models.py, class MMcQueue)\<close>

record MMcQueue =
  q_lambda_rate :: real
  q_mu_rate :: real
  q_c :: int
  q_rho :: real

text \<open>\<open>MMcQueue.__init__\<close>: no check of the arguments; the division is the only
  thing that can fail.\<close>

definition MMcQueue_init :: "real \<Rightarrow> real \<Rightarrow> int \<Rightarrow> py_error + MMcQueue" where
  "MMcQueue_init lambda_rate mu_rate c_servers =
     and_then (py_div lambda_rate (of_int c_servers * mu_rate)) (\<lambda>r.
       Inr \<lparr>q_lambda_rate = lambda_rate, q_mu_rate = mu_rate, q_c = c_servers, q_rho = r\<rparr>)"

definition is_stable :: "MMcQueue \<Rightarrow> bool" where
  "is_stable q = (q_rho q < 1)"

text \<open>One element of the comprehension in \<open>_calculate_p0\<close>:
  \<open>(lam/mu)**n / factorial(n)\<close>.\<close>

definition p0_term :: "real \<Rightarrow> real \<Rightarrow> int \<Rightarrow> py_error + real" where
  "p0_term lam mu n =
     and_then (py_div lam mu) (\<lambda>r.
     and_then (py_pow r n) (\<lambda>p.
     np_div p (sp_factorial n)))"

text \<open>\<open>(lam/mu)**c / factorial(c) * (1 / (1 - rho))\<close>, as it stands in both
  \<open>_calculate_p0\<close> and \<open>calculate_metrics\<close>.\<close>

definition erlang_term :: "MMcQueue \<Rightarrow> py_error + real" where
  "erlang_term q =
     and_then (p0_term (q_lambda_rate q) (q_mu_rate q) (q_c q)) (\<lambda>t.
     and_then (py_div 1 (1 - q_rho q)) (\<lambda>d.
     Inr (t * d)))"

definition calculate_p0 :: "MMcQueue \<Rightarrow> py_error + real" where
  "calculate_p0 q =
     and_then (collect (map (p0_term (q_lambda_rate q) (q_mu_rate q)) [0 .. q_c q - 1])) (\<lambda>terms.
     and_then (erlang_term q) (\<lambda>last_term.
     np_div 1 (sum_list terms + last_term)))"

record metrics =
  m_rho :: real
  m_utilization_percent :: real
  m_P0 :: real
  m_Pw_erlang_c :: real
  m_Lq :: real
  m_L :: real
  m_Wq :: real
  m_W :: real
  m_lambda :: real
  m_mu :: real
  m_c :: int

text \<open>The dictionary returned by \<open>calculate_metrics\<close>: with \<open>'stable': False\<close>
  it holds only \<open>rho\<close> and a message.\<close>

datatype metrics_result = Unstable real string | Stable metrics

definition calculate_metrics :: "MMcQueue \<Rightarrow> py_error + metrics_result" where
  "calculate_metrics q =
     (if \<not> is_stable q then Inr (Unstable (q_rho q) ''Sistema inestable: rho >= 1'')
      else
        and_then (calculate_p0 q) (\<lambda>p0.
        and_then (erlang_term q) (\<lambda>e.
        let pw = e * p0 in
        and_then (np_div (pw * q_rho q) (1 - q_rho q)) (\<lambda>lq.
        and_then (np_div lq (q_lambda_rate q)) (\<lambda>wq.
        and_then (py_div (q_lambda_rate q) (q_mu_rate q)) (\<lambda>a.
        and_then (py_div 1 (q_mu_rate q)) (\<lambda>s.
        Inr (Stable
          \<lparr>m_rho = q_rho q, m_utilization_percent = q_rho q * 100, m_P0 = p0,
           m_Pw_erlang_c = pw, m_Lq = lq, m_L = lq + a, m_Wq = wq, m_W = wq + s,
           m_lambda = q_lambda_rate q, m_mu = q_mu_rate q, m_c = q_c q\<rparr>))))))))"

section \<open>Cost optimizer (optimizer.py, class CostOptimizer)\<close>

record CostOptimizer =
  o_lambda_rate :: real
  o_mu_rate :: real
  o_cost_server :: real
  o_cost_waiting :: real

text \<open>\<open>objective_function\<close>: the argument may be a float; \<open>int(np.ceil(c))\<close> makes
  it an integer. The sentinel \<open>1e10\<close> is returned for \<open>c \<le> 0\<close> and for an unstable
  queue.\<close>

definition objective_function :: "CostOptimizer \<Rightarrow> real \<Rightarrow> py_error + real" where
  "objective_function opt c0 =
     (let c = \<lceil>c0\<rceil> in
      if c \<le> 0 then Inr 10000000000
      else
        and_then (MMcQueue_init (o_lambda_rate opt) (o_mu_rate opt) c) (\<lambda>queue.
        if \<not> is_stable queue then Inr 10000000000
        else
          and_then (calculate_metrics queue) (\<lambda>metrics.
          case metrics of
            Unstable r msg \<Rightarrow> Inr 10000000000
          | Stable m \<Rightarrow> Inr (of_int c * o_cost_server opt + m_Lq m * o_cost_waiting opt))))"

text \<open>One entry of \<open>results\<close> in \<open>optimize\<close>.\<close>

record evaluation =
  e_c :: int
  e_cost :: real
  e_Lq :: real
  e_Wq :: real
  e_rho :: real
  e_meets_sla :: bool

text \<open>The variables of the loop in \<open>optimize\<close>. \<open>best_c\<close>, \<open>best_cost\<close> and
  \<open>best_metrics\<close> are assigned together, so they are one optional triple: \<open>None\<close>
  stands for \<open>best_c = None\<close>, \<open>best_cost = np.inf\<close>, \<open>best_metrics = None\<close>,
  and every real cost is below \<open>np.inf\<close>.\<close>

record search_state =
  st_best :: "(int \<times> real \<times> metrics) option"
  st_results :: "evaluation list"

text \<open>\<open>metrics['Wq'] <= sla_wq if sla_wq else True\<close>: the condition is the truth value
  of \<open>sla_wq\<close>, so both \<open>None\<close> and \<open>0\<close> give \<open>True\<close>.\<close>

definition meets_sla :: "real option \<Rightarrow> real \<Rightarrow> bool" where
  "meets_sla sla_wq wq =
     (case sla_wq of None \<Rightarrow> True | Some s \<Rightarrow> (if s = 0 then True else wq \<le> s))"

definition exceeds_sla :: "real option \<Rightarrow> real \<Rightarrow> bool" where
  "exceeds_sla sla_wq wq = (case sla_wq of None \<Rightarrow> False | Some s \<Rightarrow> s < wq)"

text \<open>The body of the loop in \<open>optimize\<close>, for one \<open>c\<close>.\<close>

definition optimize_step ::
  "CostOptimizer \<Rightarrow> real option \<Rightarrow> int \<Rightarrow> search_state \<Rightarrow> py_error + search_state" where
  "optimize_step opt sla_wq c st =
     and_then (MMcQueue_init (o_lambda_rate opt) (o_mu_rate opt) c) (\<lambda>queue.
     if \<not> is_stable queue then Inr st
     else
       and_then (calculate_metrics queue) (\<lambda>metrics.
       case metrics of
         Unstable r msg \<Rightarrow> Inl (KeyError ''Wq'')
       | Stable m \<Rightarrow>
           if exceeds_sla sla_wq (m_Wq m) then Inr st
           else
             and_then (objective_function opt (of_int c)) (\<lambda>cost.
             let st' = st\<lparr>st_results := st_results st @
                        [\<lparr>e_c = c, e_cost = cost, e_Lq = m_Lq m, e_Wq = m_Wq m,
                          e_rho = m_rho m, e_meets_sla = meets_sla sla_wq (m_Wq m)\<rparr>]\<rparr>
             in Inr (case st_best st of
                       None \<Rightarrow> st'\<lparr>st_best := Some (c, cost, m)\<rparr>
                     | Some (bc, best_cost, bm) \<Rightarrow>
                         if cost < best_cost then st'\<lparr>st_best := Some (c, cost, m)\<rparr>
                         else st'))))"

fun optimize_loop ::
  "CostOptimizer \<Rightarrow> real option \<Rightarrow> int list \<Rightarrow> search_state \<Rightarrow> py_error + search_state" where
  "optimize_loop opt sla_wq [] st = Inr st"
| "optimize_loop opt sla_wq (c # cs) st =
     (case optimize_step opt sla_wq c st of
        Inl e \<Rightarrow> Inl e
      | Inr st' \<Rightarrow> optimize_loop opt sla_wq cs st')"

record optimum =
  r_optimal_c :: int
  r_total_cost :: real
  r_server_cost :: real
  r_waiting_cost :: real
  r_metrics :: metrics
  r_all_results :: "evaluation list"
  r_sla_wq :: "real option"

text \<open>The dictionary returned by \<open>optimize\<close>: with \<open>'success': False\<close> it holds only
  a message.\<close>

datatype optimize_result = Infeasible string | Optimum optimum

text \<open>The message \<open>No se encontr\'o soluci\'on factible\<close>, in UTF-8.\<close>

definition no_solution_message :: string where
  "no_solution_message =
     ''No se encontr'' @ [CHR 0xC3, CHR 0xB3] @ '' soluci'' @ [CHR 0xC3, CHR 0xB3] @ ''n factible''"

definition optimize ::
  "CostOptimizer \<Rightarrow> int \<Rightarrow> int \<Rightarrow> real option \<Rightarrow> py_error + optimize_result" where
  "optimize opt c_min c_max sla_wq =
     and_then (py_div (o_lambda_rate opt) (o_mu_rate opt)) (\<lambda>a.
     let c_stability = \<lceil>a\<rceil> + 1;
         c_min' = max c_min c_stability
     in
     and_then (optimize_loop opt sla_wq [c_min' .. c_max] \<lparr>st_best = None, st_results = []\<rparr>) (\<lambda>st.
     case st_best st of
       None \<Rightarrow> Inr (Infeasible no_solution_message)
     | Some (best_c, best_cost, best_metrics) \<Rightarrow>
         Inr (Optimum
           \<lparr>r_optimal_c = best_c, r_total_cost = best_cost,
            r_server_cost = of_int best_c * o_cost_server opt,
            r_waiting_cost = m_Lq best_metrics * o_cost_waiting opt,
            r_metrics = best_metrics, r_all_results = st_results st, r_sla_wq = sla_wq\<rparr>)))"

text \<open>\<open>sensitivity_analysis\<close>. The dictionary it returns always has the seven lists;
  the keys \<open>optimal_c\<close> and \<open>optimal_cost\<close> are added only when \<open>total_costs\<close> is not
  empty, so each of them is an optional field.\<close>

record sensitivity =
  s_c_values :: "int list"
  s_total_costs :: "real list"
  s_server_costs :: "real list"
  s_waiting_costs :: "real list"
  s_utilizations :: "real list"
  s_wq_values :: "real list"
  s_lq_values :: "real list"
  s_optimal_c :: "int option"
  s_optimal_cost :: "real option"

definition sensitivity_step :: "CostOptimizer \<Rightarrow> int \<Rightarrow> sensitivity \<Rightarrow> py_error + sensitivity" where
  "sensitivity_step opt c res =
     and_then (MMcQueue_init (o_lambda_rate opt) (o_mu_rate opt) c) (\<lambda>queue.
     if \<not> is_stable queue then Inr res
     else
       and_then (calculate_metrics queue) (\<lambda>metrics.
       case metrics of
         Unstable r msg \<Rightarrow> Inl (KeyError ''Lq'')
       | Stable m \<Rightarrow>
           let server_cost = of_int c * o_cost_server opt;
               waiting_cost = m_Lq m * o_cost_waiting opt;
               total_cost = server_cost + waiting_cost
           in Inr (res\<lparr>s_c_values := s_c_values res @ [c],
                       s_total_costs := s_total_costs res @ [total_cost],
                       s_server_costs := s_server_costs res @ [server_cost],
                       s_waiting_costs := s_waiting_costs res @ [waiting_cost],
                       s_utilizations := s_utilizations res @ [m_rho m],
                       s_wq_values := s_wq_values res @ [m_Wq m],
                       s_lq_values := s_lq_values res @ [m_Lq m]\<rparr>)))"

fun sensitivity_loop :: "CostOptimizer \<Rightarrow> int list \<Rightarrow> sensitivity \<Rightarrow> py_error + sensitivity" where
  "sensitivity_loop opt [] res = Inr res"
| "sensitivity_loop opt (c # cs) res =
     (case sensitivity_step opt c res of
        Inl e \<Rightarrow> Inl e
      | Inr res' \<Rightarrow> sensitivity_loop opt cs res')"

text \<open>\<open>np.argmin\<close> on a non-empty list: the index of the first occurrence of the
  minimum. \<open>argmin_from i b v xs\<close> scans \<open>xs\<close>, whose first element has index \<open>i\<close>,
  with \<open>b\<close> the index and \<open>v\<close> the value of the least element seen so far.\<close>

fun argmin_from :: "nat \<Rightarrow> nat \<Rightarrow> real \<Rightarrow> real list \<Rightarrow> nat" where
  "argmin_from i b v [] = b"
| "argmin_from i b v (x # xs) =
     (if x < v then argmin_from (Suc i) i x xs else argmin_from (Suc i) b v xs)"

definition np_argmin :: "real list \<Rightarrow> nat" where
  "np_argmin xs = (case xs of [] \<Rightarrow> 0 | x # xs' \<Rightarrow> argmin_from 1 0 x xs')"

definition sensitivity_analysis ::
  "CostOptimizer \<Rightarrow> (int \<times> int) option \<Rightarrow> py_error + sensitivity" where
  "sensitivity_analysis opt c_range =
     and_then
       (case c_range of
          None \<Rightarrow>
            and_then (py_div (o_lambda_rate opt) (o_mu_rate opt)) (\<lambda>a.
            let c_stability = \<lceil>a\<rceil> + 1 in Inr (c_stability, c_stability + 20))
        | Some r \<Rightarrow> Inr r) (\<lambda>(c_min, c_max).
     and_then
       (sensitivity_loop opt [c_min .. c_max]
          \<lparr>s_c_values = [], s_total_costs = [], s_server_costs = [], s_waiting_costs = [],
           s_utilizations = [], s_wq_values = [], s_lq_values = [],
           s_optimal_c = None, s_optimal_cost = None\<rparr>) (\<lambda>res.
     if s_total_costs res \<noteq> [] then
       let min_idx = np_argmin (s_total_costs res)
       in Inr (res\<lparr>s_optimal_c := Some (s_c_values res ! min_idx),
                   s_optimal_cost := Some (s_total_costs res ! min_idx)\<rparr>)
     else Inr res))"

section \<open>Distribution fitter (distribution_fitter.py, class DistributionFitter)\<close>

text \<open>
  \<open>scipy.stats\<close> and \<open>numpy\<close> are not code of the repository. What the fitter asks of
  them is a parameter of the model, a record of functions; a call that raises returns
  \<open>Inl\<close>. A family is named by its string, as in \<open>getattr(stats, dist_name)\<close>, and an
  unknown name is a failure of the call.

  Statistics and p-values that the library hands back are passed on by the source
  without arithmetic; they may be NaN, so they are values of \<open>np_value\<close>.
\<close>

datatype np_value = Num real | NaN

record stats_library =
  lib_fit :: "string \<Rightarrow> real list \<Rightarrow> py_error + real list"
  lib_logpdf_sum :: "string \<Rightarrow> real list \<Rightarrow> real list \<Rightarrow> py_error + real"
  lib_cdf :: "string \<Rightarrow> py_error + (real list \<Rightarrow> real \<Rightarrow> real)"
  lib_kstest :: "real list \<Rightarrow> (real \<Rightarrow> real) \<Rightarrow> py_error + (np_value \<times> np_value)"
  lib_histogram :: "real list \<Rightarrow> py_error + (nat list \<times> real list)"
  lib_chisquare :: "real list \<Rightarrow> real list \<Rightarrow> py_error + (np_value \<times> np_value)"

text \<open>One value of the dictionary \<open>results\<close>; \<open>dist_object\<close> is stood for by the
  family's name.\<close>

record fit_info =
  f_params :: "real list"
  f_dist_object :: string
  f_log_likelihood :: real
  f_aic :: real
  f_bic :: real

text \<open>A Python dictionary with string keys, in insertion order: assigning to a key
  that is present replaces its value in place (\<open>AList.update\<close>).\<close>

type_synonym fitted = "(string \<times> fit_info) list"

text \<open>The body of the \<open>try\<close> in \<open>fit_distributions\<close>. \<open>Inl\<close> is an exception of
  the library, which the \<open>except\<close> clause catches.\<close>

definition fit_family :: "stats_library \<Rightarrow> real list \<Rightarrow> string \<Rightarrow> py_error + fit_info" where
  "fit_family lib data dist_name =
     and_then (lib_fit lib dist_name data) (\<lambda>params.
     and_then (lib_logpdf_sum lib dist_name params data) (\<lambda>log_likelihood.
     let k = length params;
         n = length data;
         aic = 2 * real k - 2 * log_likelihood;
         bic = real k * ln (real n) - 2 * log_likelihood
     in Inr \<lparr>f_params = params, f_dist_object = dist_name, f_log_likelihood = log_likelihood,
             f_aic = aic, f_bic = bic\<rparr>))"

text \<open>The loop of \<open>fit_distributions\<close>. The second component collects what is printed:
  the family and its exception. With an empty sample \<open>np.log(n)\<close> is \<open>-inf\<close>, which
  raises nothing: the embedding stops there.\<close>

fun fit_loop ::
  "stats_library \<Rightarrow> real list \<Rightarrow> string list \<Rightarrow> fitted \<times> (string \<times> py_error) list \<Rightarrow>
   py_error + fitted \<times> (string \<times> py_error) list" where
  "fit_loop lib data [] acc = Inr acc"
| "fit_loop lib data (dist_name # rest) (results, printed) =
     (case fit_family lib data dist_name of
        Inl e \<Rightarrow> fit_loop lib data rest (results, printed @ [(dist_name, e)])
      | Inr info \<Rightarrow>
          if data = [] then Inl NonFiniteFloat
          else fit_loop lib data rest (AList.update dist_name info results, printed))"

text \<open>\<open>fit_distributions\<close> returns \<open>results\<close> and stores the same dictionary in
  \<open>self.fitted_distributions\<close>: the first component is both.\<close>

definition fit_distributions ::
  "stats_library \<Rightarrow> real list \<Rightarrow> string list \<Rightarrow> py_error + fitted \<times> (string \<times> py_error) list" where
  "fit_distributions lib data distributions = fit_loop lib data distributions ([], [])"

definition default_distributions :: "string list" where
  "default_distributions = [''expon'', ''gamma'', ''lognorm'', ''weibull_min'']"

text \<open>\<open>observed[mask]\<close>: the elements at the positions where the mask is true.\<close>

fun mask_select :: "bool list \<Rightarrow> 'a list \<Rightarrow> 'a list" where
  "mask_select (m # ms) (x # xs) = (if m then x # mask_select ms xs else mask_select ms xs)"
| "mask_select ms xs = []"

text \<open>The argument \<open>distribution\<close> of \<open>goodness_of_fit_tests\<close>: a name, or a
  distribution object, of which only the \<open>cdf\<close> is used.\<close>

datatype distribution = DistName string | DistObject "real list \<Rightarrow> real \<Rightarrow> real"

definition expected_counts :: "(real list \<Rightarrow> real \<Rightarrow> real) \<Rightarrow> real list \<Rightarrow> real list \<Rightarrow> nat \<Rightarrow> real list" where
  "expected_counts cdf params bin_edges n =
     map (\<lambda>i. (cdf params (bin_edges ! (i + 1)) - cdf params (bin_edges ! i)) * real n)
       [0 ..< length bin_edges - 1]"

text \<open>\<open>goodness_of_fit_tests\<close>. The returned dictionary is the list of its four
  entries. A boolean mask whose length differs from the array's is an \<open>IndexError\<close>.\<close>

definition goodness_of_fit_tests ::
  "stats_library \<Rightarrow> real list \<Rightarrow> distribution \<Rightarrow> real list \<Rightarrow> py_error + (string \<times> np_value) list" where
  "goodness_of_fit_tests lib data dist_arg params =
     and_then (case dist_arg of DistName name \<Rightarrow> lib_cdf lib name | DistObject cdf \<Rightarrow> Inr cdf) (\<lambda>cdf.
     and_then (lib_kstest lib data (cdf params)) (\<lambda>(ks_stat, ks_pvalue).
     and_then (lib_histogram lib data) (\<lambda>(observed, bin_edges).
     let expected = expected_counts cdf params bin_edges (length data);
         mask = map (\<lambda>e. 5 < e) expected
     in
     if length observed \<noteq> length mask then Inl IndexError
     else
       and_then (lib_chisquare lib (mask_select mask (map real observed)) (mask_select mask expected))
         (\<lambda>(chi2_stat, chi2_pvalue).
       Inr [(''ks_statistic'', ks_stat), (''ks_pvalue'', ks_pvalue),
            (''chi2_statistic'', chi2_stat), (''chi2_pvalue'', chi2_pvalue)]))))"

text \<open>\<open>info[criterion]\<close> followed by \<open>value < best_value\<close>: a key that is absent is a
  \<open>KeyError\<close>; the tuple of parameters and the distribution object cannot be compared
  with a float.\<close>

definition criterion_value :: "fit_info \<Rightarrow> string \<Rightarrow> py_error + real" where
  "criterion_value info criterion =
     (if criterion = ''aic'' then Inr (f_aic info)
      else if criterion = ''bic'' then Inr (f_bic info)
      else if criterion = ''log_likelihood'' then Inr (f_log_likelihood info)
      else if criterion = ''params'' \<or> criterion = ''dist_object'' then Inl TypeError
      else Inl (KeyError criterion))"

text \<open>The loop of \<open>get_best_distribution\<close>. \<open>best_name\<close>, \<open>best_params\<close> and
  \<open>best_value\<close> are one optional triple: \<open>None\<close> stands for \<open>(None, None, np.inf)\<close>.\<close>

fun best_loop ::
  "string \<Rightarrow> fitted \<Rightarrow> (string \<times> real list \<times> real) option \<Rightarrow>
   py_error + (string \<times> real list \<times> real) option" where
  "best_loop criterion [] b = Inr b"
| "best_loop criterion ((name, info) # rest) b =
     (case criterion_value info criterion of
        Inl e \<Rightarrow> Inl e
      | Inr v \<Rightarrow>
          (case b of
             None \<Rightarrow> best_loop criterion rest (Some (name, f_params info, v))
           | Some (best_name, best_params, best_value) \<Rightarrow>
               if v < best_value then best_loop criterion rest (Some (name, f_params info, v))
               else best_loop criterion rest b))"

text \<open>\<open>get_best_distribution\<close>: the first argument is \<open>self.fitted_distributions\<close>
  before the call, the second component of the result is the same field after it.\<close>

definition get_best_distribution ::
  "stats_library \<Rightarrow> fitted \<Rightarrow> real list \<Rightarrow> string \<Rightarrow>
   py_error + (string \<times> real list \<times> real) option \<times> fitted" where
  "get_best_distribution lib fitted_distributions data criterion =
     and_then
       (if fitted_distributions = [] then
          and_then (fit_distributions lib data default_distributions) (\<lambda>(results, printed).
          Inr results)
        else Inr fitted_distributions) (\<lambda>fitted'.
     and_then (best_loop criterion fitted' None) (\<lambda>b.
     Inr (b, fitted')))"

section \<open>Simulator (queue_models.py, class QueueSimulator)\<close>

text \<open>
  \<open>simpy\<close> and the random generator of \<open>numpy\<close> are not code of the repository.
  After \<open>np.random.seed(seed)\<close> a run of \<open>env.run(until=sim_time)\<close> on a new
  environment is determined by the seed and by \<open>lambda_rate\<close>, \<open>mu_rate\<close>,
  \<open>c_servers\<close>, \<open>sim_time\<close>. The two process bodies \<open>customer\<close> and
  \<open>customer_generator\<close> only append to the three lists of the simulator and never read
  them. So a run is a parameter of the model: a function from the seed and the four
  parameters to the sequence of values appended, in order, and the exception that ended
  the run, if any.
\<close>

datatype sample = WaitTime real | SystemTime real | QueueLength nat

type_synonym engine = "int \<Rightarrow> real \<Rightarrow> real \<Rightarrow> int \<Rightarrow> real \<Rightarrow> sample list \<times> py_error option"

text \<open>The lists are Python objects that the simulator and the dictionaries it returns
  share. The store holds them; an address is an index into the store.\<close>

type_synonym heap = "real list list"

record QueueSimulator =
  sim_lambda_rate :: real
  sim_mu_rate :: real
  sim_c_servers :: int
  sim_sim_time :: real
  sim_wait_times :: nat
  sim_system_times :: nat
  sim_queue_lengths :: nat

text \<open>\<open>QueueSimulator.__init__\<close> creates the three lists, empty. This is the only
  place where they are created or emptied.\<close>

definition QueueSimulator_init ::
  "heap \<Rightarrow> real \<Rightarrow> real \<Rightarrow> int \<Rightarrow> real \<Rightarrow> heap \<times> QueueSimulator" where
  "QueueSimulator_init h lambda_rate mu_rate c_servers sim_time =
     (h @ [[], [], []],
      \<lparr>sim_lambda_rate = lambda_rate, sim_mu_rate = mu_rate, sim_c_servers = c_servers,
       sim_sim_time = sim_time, sim_wait_times = length h, sim_system_times = length h + 1,
       sim_queue_lengths = length h + 2\<rparr>)"

text \<open>\<open>xs.append(x)\<close> for the list at address \<open>a\<close>.\<close>

definition list_append :: "heap \<Rightarrow> nat \<Rightarrow> real \<Rightarrow> heap" where
  "list_append h a x = h[a := h ! a @ [x]]"

fun record_sample :: "QueueSimulator \<Rightarrow> heap \<Rightarrow> sample \<Rightarrow> heap" where
  "record_sample sim h (WaitTime w) = list_append h (sim_wait_times sim) w"
| "record_sample sim h (SystemTime t) = list_append h (sim_system_times sim) t"
| "record_sample sim h (QueueLength n) = list_append h (sim_queue_lengths sim) (real n)"

text \<open>\<open>np.mean\<close>: NaN on an empty list, with a warning and no exception.\<close>

definition np_mean :: "real list \<Rightarrow> np_value" where
  "np_mean xs = (if xs = [] then NaN else Num (sum_list xs / real (length xs)))"

definition np_add :: "np_value \<Rightarrow> real \<Rightarrow> np_value" where
  "np_add v x = (case v of NaN \<Rightarrow> NaN | Num y \<Rightarrow> Num (y + x))"

text \<open>The dictionary returned by \<open>run_simulation\<close>. Its last three entries are the
  simulator's own list objects, not copies: they are addresses.\<close>

record simulation_result =
  Wq_simulated :: np_value
  W_simulated :: np_value
  Lq_simulated :: np_value
  L_simulated :: np_value
  total_customers :: nat
  res_sim_time :: real
  res_wait_times :: nat
  res_system_times :: nat
  res_queue_lengths :: nat

text \<open>\<open>run_simulation\<close>: seeds the generator, runs the environment, which appends to
  the simulator's lists, and computes the means of the lists as they are then.\<close>

definition run_simulation ::
  "engine \<Rightarrow> QueueSimulator \<Rightarrow> int \<Rightarrow> heap \<Rightarrow> heap \<times> (py_error + simulation_result)" where
  "run_simulation run sim seed h =
     (let (trace, failure) =
            run seed (sim_lambda_rate sim) (sim_mu_rate sim) (sim_c_servers sim) (sim_sim_time sim);
          h' = foldl (record_sample sim) h trace
      in case failure of
           Some e \<Rightarrow> (h', Inl e)
         | None \<Rightarrow>
             let wq_sim = np_mean (h' ! sim_wait_times sim);
                 w_sim = np_mean (h' ! sim_system_times sim);
                 lq_sim = np_mean (h' ! sim_queue_lengths sim)
             in (h',
                 and_then (py_div (sim_lambda_rate sim) (sim_mu_rate sim)) (\<lambda>a.
                 Inr \<lparr>Wq_simulated = wq_sim, W_simulated = w_sim, Lq_simulated = lq_sim,
                      L_simulated = np_add lq_sim a,
                      total_customers = length (h' ! sim_wait_times sim),
                      res_sim_time = sim_sim_time sim,
                      res_wait_times = sim_wait_times sim,
                      res_system_times = sim_system_times sim,
                      res_queue_lengths = sim_queue_lengths sim\<rparr>)))"

section \<open>Closed forms used in the statements\<close>

text \<open>The value of the comprehension's sum, of the Erlang term and of \<open>P0\<close> when
  nothing fails, written as the source computes them.\<close>

definition sum_value :: "real \<Rightarrow> real \<Rightarrow> int \<Rightarrow> real" where
  "sum_value lam mu c = (\<Sum>n \<leftarrow> [0 .. c - 1]. (lam / mu) ^ nat n / fact (nat n))"

definition erlang_value :: "MMcQueue \<Rightarrow> real" where
  "erlang_value q =
     (q_lambda_rate q / q_mu_rate q) ^ nat (q_c q) / fact (nat (q_c q)) * (1 / (1 - q_rho q))"

definition p0_value :: "MMcQueue \<Rightarrow> real" where
  "p0_value q = 1 / (sum_value (q_lambda_rate q) (q_mu_rate q) (q_c q) + erlang_value q)"

definition stable_metrics :: "MMcQueue \<Rightarrow> metrics" where
  "stable_metrics q =
     (let pw = erlang_value q * p0_value q;
          lq = pw * q_rho q / (1 - q_rho q);
          wq = lq / q_lambda_rate q
      in \<lparr>m_rho = q_rho q, m_utilization_percent = q_rho q * 100, m_P0 = p0_value q,
          m_Pw_erlang_c = pw, m_Lq = lq, m_L = lq + q_lambda_rate q / q_mu_rate q,
          m_Wq = wq, m_W = wq + 1 / q_mu_rate q,
          m_lambda = q_lambda_rate q, m_mu = q_mu_rate q, m_c = q_c q\<rparr>)"

text \<open>The object that \<open>MMcQueue(lam, mu, c)\<close> builds when the division succeeds.\<close>

definition queue_of :: "real \<Rightarrow> real \<Rightarrow> int \<Rightarrow> MMcQueue" where
  "queue_of lam mu c =
     \<lparr>q_lambda_rate = lam, q_mu_rate = mu, q_c = c, q_rho = lam / (of_int c * mu)\<rparr>"

text \<open>The metrics of the queue with \<open>c\<close> servers.\<close>

definition metrics_at :: "CostOptimizer \<Rightarrow> int \<Rightarrow> metrics" where
  "metrics_at opt c = stable_metrics (queue_of (o_lambda_rate opt) (o_mu_rate opt) c)"

text \<open>Feasibility in the words of the specification: the queue with \<open>c\<close> servers is
  stable, \<open>\<rho> = \<lambda> / (c \<mu>) < 1\<close>, and its mean wait \<open>Wq\<close> is not above the SLA threshold,
  when one is given.\<close>

definition feasible :: "CostOptimizer \<Rightarrow> real option \<Rightarrow> int \<Rightarrow> bool" where
  "feasible opt sla_wq c =
     (o_lambda_rate opt / (of_int c * o_mu_rate opt) < 1 \<and>
      (case sla_wq of None \<Rightarrow> True | Some s \<Rightarrow> m_Wq (metrics_at opt c) \<le> s))"

text \<open>The objective of the specification: \<open>Z(c) = c * serverCost + Lq(c) * waitingCost\<close>.\<close>

definition Z :: "CostOptimizer \<Rightarrow> int \<Rightarrow> real" where
  "Z opt c = of_int c * o_cost_server opt + m_Lq (metrics_at opt c) * o_cost_waiting opt"

text \<open>The integers from \<open>max(cMin, ceil(lambda/mu) + 1)\<close> to \<open>cMax\<close>, ascending.\<close>

definition search_range :: "CostOptimizer \<Rightarrow> int \<Rightarrow> int \<Rightarrow> int list" where
  "search_range opt c_min c_max =
     [max c_min (\<lceil>o_lambda_rate opt / o_mu_rate opt\<rceil> + 1) .. c_max]"

text \<open>The power \<open>(\<lambda>/\<mu>)\<^sup>c\<close>, which the metrics of the queue with \<open>c\<close> servers need, is
  within the doubles.\<close>

definition representable :: "CostOptimizer \<Rightarrow> int \<Rightarrow> bool" where
  "representable opt c = ((o_lambda_rate opt / o_mu_rate opt) ^ nat c \<le> float_max)"

text \<open>The row of the evaluation table for a feasible \<open>c\<close>.\<close>

definition evaluation_of :: "CostOptimizer \<Rightarrow> real option \<Rightarrow> int \<Rightarrow> evaluation" where
  "evaluation_of opt sla_wq c =
     \<lparr>e_c = c, e_cost = Z opt c, e_Lq = m_Lq (metrics_at opt c), e_Wq = m_Wq (metrics_at opt c),
      e_rho = m_rho (metrics_at opt c), e_meets_sla = meets_sla sla_wq (m_Wq (metrics_at opt c))\<rparr>"

text \<open>What one iteration of the loop does to its variables for a feasible \<open>c\<close>.\<close>

definition record_evaluation ::
  "CostOptimizer \<Rightarrow> real option \<Rightarrow> int \<Rightarrow> search_state \<Rightarrow> search_state" where
  "record_evaluation opt sla_wq c st =
     \<lparr>st_best =
        (case st_best st of
           None \<Rightarrow> Some (c, Z opt c, metrics_at opt c)
         | Some (bc, best_cost, bm) \<Rightarrow>
             if Z opt c < best_cost then Some (c, Z opt c, metrics_at opt c)
             else Some (bc, best_cost, bm)),
      st_results = st_results st @ [evaluation_of opt sla_wq c]\<rparr>"

text \<open>The loop of \<open>optimize\<close> as a fold over the feasible server counts.\<close>

definition scan :: "CostOptimizer \<Rightarrow> real option \<Rightarrow> int list \<Rightarrow> search_state \<Rightarrow> search_state" where
  "scan opt sla_wq cs st = foldl (\<lambda>st c. record_evaluation opt sla_wq c st) st (filter (feasible opt sla_wq) cs)"

text \<open>The dictionary that \<open>optimize\<close> returns for the final values of its loop
  variables.\<close>

definition answer :: "CostOptimizer \<Rightarrow> real option \<Rightarrow> search_state \<Rightarrow> optimize_result" where
  "answer opt sla_wq st =
     (case st_best st of
        None \<Rightarrow> Infeasible no_solution_message
      | Some (best_c, best_cost, best_metrics) \<Rightarrow>
          Optimum
            \<lparr>r_optimal_c = best_c, r_total_cost = best_cost,
             r_server_cost = of_int best_c * o_cost_server opt,
             r_waiting_cost = m_Lq best_metrics * o_cost_waiting opt,
             r_metrics = best_metrics, r_all_results = st_results st, r_sla_wq = sla_wq\<rparr>)"

text \<open>The update of the best triple.\<close>

definition better ::
  "CostOptimizer \<Rightarrow> (int \<times> real \<times> metrics) option \<Rightarrow> int \<Rightarrow> (int \<times> real \<times> metrics) option" where
  "better opt b c =
     (case b of
        None \<Rightarrow> Some (c, Z opt c, metrics_at opt c)
      | Some (bc, best_cost, bm) \<Rightarrow>
          if Z opt c < best_cost then Some (c, Z opt c, metrics_at opt c)
          else Some (bc, best_cost, bm))"

text \<open>\<open>b\<close> attains the least \<open>Z\<close> in \<open>cs\<close>, and is the smallest such element.\<close>

definition first_minimum :: "CostOptimizer \<Rightarrow> int list \<Rightarrow> int \<Rightarrow> bool" where
  "first_minimum opt cs b =
     (b \<in> set cs \<and> (\<forall>c \<in> set cs. Z opt b \<le> Z opt c \<and> (Z opt c = Z opt b \<longrightarrow> b \<le> c)))"

text \<open>Two concrete optimizers: \<open>\<lambda> = \<mu> = 1\<close> with both costs 1, and \<open>\<lambda> = 150\<close>,
  \<open>\<mu> = 1\<close> with the costs 50 and 20.\<close>

definition unit_optimizer :: CostOptimizer where
  "unit_optimizer = \<lparr>o_lambda_rate = 1, o_mu_rate = 1, o_cost_server = 1, o_cost_waiting = 1\<rparr>"

definition busy_optimizer :: CostOptimizer where
  "busy_optimizer = \<lparr>o_lambda_rate = 150, o_mu_rate = 1, o_cost_server = 50, o_cost_waiting = 20\<rparr>"

text \<open>The integer \<open>c\<close> gives a queue, and the queue is stable.\<close>

definition yields_stable_queue :: "CostOptimizer \<Rightarrow> int \<Rightarrow> bool" where
  "yields_stable_queue opt c =
     (case MMcQueue_init (o_lambda_rate opt) (o_mu_rate opt) c of
        Inl e \<Rightarrow> False
      | Inr q \<Rightarrow> is_stable q)"

section \<open>Vocabulary of the statements about the fitter\<close>

text \<open>The entry of \<open>results\<close> for a family after the loop of \<open>fit_distributions\<close> has gone
  through \<open>names\<close>, starting from \<open>results\<close>.\<close>

definition fitted_entry :: "stats_library \<Rightarrow> real list \<Rightarrow> fitted \<Rightarrow> string list \<Rightarrow> string \<Rightarrow> fit_info option" where
  "fitted_entry lib data results names name =
     (if name \<in> set names then
        (case fit_family lib data name of Inr info \<Rightarrow> Some info | Inl e \<Rightarrow> map_of results name)
      else map_of results name)"

text \<open>A stand-in for the statistics library, used only to instantiate the library parameter
  at concrete inputs. Only the exponential family can be fitted, and only to a non-empty
  sample; the histogram is handed in; the chi-square statistic is the sum of
  \<open>(observed - expected)\<^sup>2 / expected\<close>, and its p-value is NaN when fewer than two bins are
  given, as it is in \<open>scipy\<close> for zero or fewer degrees of freedom.\<close>

definition stub_library :: "nat list \<times> real list \<Rightarrow> stats_library" where
  "stub_library hist =
     \<lparr>lib_fit = (\<lambda>name data.
        if name = ''expon'' \<and> data \<noteq> [] then Inr [0, sum_list data / real (length data)]
        else Inl (LibraryError name)),
      lib_logpdf_sum = (\<lambda>name params data. Inr (- sum_list data)),
      lib_cdf = (\<lambda>name. Inl (LibraryError name)),
      lib_kstest = (\<lambda>data cdf. Inr (Num 0, Num 1)),
      lib_histogram = (\<lambda>data. Inr hist),
      lib_chisquare = (\<lambda>obs expd.
        Inr (Num (\<Sum>(x, y) \<leftarrow> zip obs expd. (x - y)\<^sup>2 / y),
             if length obs < 2 then NaN else Num 1))\<rparr>"

text \<open>The bins that pass the filter: observed and expected count of every bin whose expected
  count is above 5.\<close>

definition surviving_bins ::
  "(real list \<Rightarrow> real \<Rightarrow> real) \<Rightarrow> real list \<Rightarrow> nat list \<Rightarrow> real list \<Rightarrow> nat \<Rightarrow> (nat \<times> real) list" where
  "surviving_bins cdf params observed bin_edges n =
     filter (\<lambda>(count, ex). 5 < ex) (zip observed (expected_counts cdf params bin_edges n))"

text \<open>The 21 edges of 20 equal bins on \<open>[0, 1]\<close>.\<close>

definition unit_edges :: "real list" where
  "unit_edges = [0, 1/20, 2/20, 3/20, 4/20, 5/20, 6/20, 7/20, 8/20, 9/20, 10/20,
                 11/20, 12/20, 13/20, 14/20, 15/20, 16/20, 17/20, 18/20, 19/20, 1]"

text \<open>Two cumulative distribution functions for the concrete inputs.\<close>

definition uniform_cdf :: "real list \<Rightarrow> real \<Rightarrow> real" where
  "uniform_cdf params x = (if x < 0 then 0 else if 1 < x then 1 else x)"

definition two_point_cdf :: "real list \<Rightarrow> real \<Rightarrow> real" where
  "two_point_cdf params x = (if x \<le> 0 then 0 else if x < 1 then 1 / 2 else 1)"

text \<open>The histograms of the samples \<open>[0, 1/2, 1]\<close> and of six times 0 with six times 1.\<close>

definition sparse_histogram :: "nat list \<times> real list" where
  "sparse_histogram = ((replicate 20 0) [0 := 1, 10 := 1, 19 := 1], unit_edges)"

definition two_point_histogram :: "nat list \<times> real list" where
  "two_point_histogram = ((replicate 20 0) [0 := 6, 19 := 6], unit_edges)"

text \<open>The field that the criterion \<open>aic\<close> or \<open>bic\<close> selects.\<close>

definition criterion_field :: "string \<Rightarrow> fit_info \<Rightarrow> real" where
  "criterion_field criterion info = (if criterion = ''aic'' then f_aic info else f_bic info)"

text \<open>\<open>b\<close> is the triple of an entry of \<open>S\<close> whose criterion value is least in \<open>S\<close>;
  \<open>None\<close> when \<open>S\<close> is empty.\<close>

definition least_of ::
  "string \<Rightarrow> (string \<times> fit_info) set \<Rightarrow> (string \<times> real list \<times> real) option \<Rightarrow> bool" where
  "least_of criterion S b =
     (case b of
        None \<Rightarrow> S = {}
      | Some (name, params, v) \<Rightarrow>
          (\<exists>info. (name, info) \<in> S \<and> params = f_params info \<and>
                  v = criterion_field criterion info \<and>
                  (\<forall>(name', info') \<in> S. v \<le> criterion_field criterion info')))"

text \<open>A cache of two fits for the witness.\<close>

definition cached_fits :: fitted where
  "cached_fits =
     [(''expon'', \<lparr>f_params = [0, 2], f_dist_object = ''expon'', f_log_likelihood = - 4,
                    f_aic = 12, f_bic = 10\<rparr>),
      (''gamma'', \<lparr>f_params = [1, 0, 2], f_dist_object = ''gamma'', f_log_likelihood = - 2,
                    f_aic = 10, f_bic = 7\<rparr>)]"

section \<open>Vocabulary of the statements about the simulator\<close>

text \<open>The wait times, the system times and the queue lengths that a run appends, in order.\<close>

fun wait_samples :: "sample list \<Rightarrow> real list" where
  "wait_samples [] = []"
| "wait_samples (WaitTime w # tr) = w # wait_samples tr"
| "wait_samples (x # tr) = wait_samples tr"

fun system_samples :: "sample list \<Rightarrow> real list" where
  "system_samples [] = []"
| "system_samples (SystemTime t # tr) = t # system_samples tr"
| "system_samples (x # tr) = system_samples tr"

fun queue_samples :: "sample list \<Rightarrow> real list" where
  "queue_samples [] = []"
| "queue_samples (QueueLength n # tr) = real n # queue_samples tr"
| "queue_samples (x # tr) = queue_samples tr"

text \<open>The three lists of a simulator are three different objects of the store.\<close>

definition well_placed :: "QueueSimulator \<Rightarrow> heap \<Rightarrow> bool" where
  "well_placed sim h =
     (sim_wait_times sim < length h \<and> sim_system_times sim < length h \<and>
      sim_queue_lengths sim < length h \<and>
      sim_wait_times sim \<noteq> sim_system_times sim \<and>
      sim_wait_times sim \<noteq> sim_queue_lengths sim \<and>
      sim_system_times sim \<noteq> sim_queue_lengths sim)"

text \<open>A run for the concrete inputs: one customer arrives, finds the queue empty, is served at
  once (wait 0) and leaves after half a time unit.\<close>

definition one_customer_run :: engine where
  "one_customer_run seed lam mu c T = ([QueueLength 0, WaitTime 0, SystemTime (1 / 2)], None)"

text \<open>The simulator that \<open>QueueSimulator(1, 2, 1, sim_time=1)\<close> builds in an empty store, and
  the dictionary its first run returns.\<close>

definition fresh_simulator :: QueueSimulator where
  "fresh_simulator =
     \<lparr>sim_lambda_rate = 1, sim_mu_rate = 2, sim_c_servers = 1, sim_sim_time = 1,
      sim_wait_times = 0, sim_system_times = 1, sim_queue_lengths = 2\<rparr>"

definition first_result :: simulation_result where
  "first_result =
     \<lparr>Wq_simulated = Num 0, W_simulated = Num (1 / 2), Lq_simulated = Num 0,
      L_simulated = Num (1 / 2), total_customers = 1, res_sim_time = 1,
      res_wait_times = 0, res_system_times = 1, res_queue_lengths = 2\<rparr>"

text \<open>A second simulator with the same parameters, built after the first one has run.\<close>

definition second_simulator :: QueueSimulator where
  "second_simulator = fresh_simulator
     \<lparr>sim_wait_times := 3, sim_system_times := 4, sim_queue_lengths := 5\<rparr>"

section \<open>Basic facts\<close>

lemma and_then_Inl: "and_then (Inl e) f = Inl e"
  by (simp add: and_then_def)

lemma and_then_Inr: "and_then (Inr v) f = f v"
  by (simp add: and_then_def)

lemma collect_all_Inr: "collect (map (\<lambda>x. Inr (f x)) xs) = Inr (map f xs)"
  by (induction xs) simp_all

lemma collect_cases:
  assumes "\<forall>x \<in> set xs. x = Inl e \<or> (\<exists>v. x = Inr v)"
  shows "collect xs = Inl e \<or> (\<exists>vs. collect xs = Inr vs)"
  using assms by (induction xs) (auto split: sum.splits)

lemma one_le_float_max: "1 \<le> float_max"
  by (simp add: float_max_def)

lemma py_pow_value:
  assumes "0 \<le> n" "\<bar>x ^ nat n\<bar> \<le> float_max"
  shows "py_pow x n = Inr (x ^ nat n)"
  using assms by (simp add: py_pow_def)

lemma py_pow_overflow:
  assumes "0 \<le> n" "float_max < \<bar>x ^ nat n\<bar>"
  shows "py_pow x n = Inl OverflowError"
  using assms by (simp add: py_pow_def)

lemma power_in_range:
  fixes r :: real
  assumes "0 < r" "n \<le> k" "r ^ k \<le> float_max"
  shows "\<bar>r ^ n\<bar> \<le> float_max"
proof (cases "r \<le> 1")
  case True
  then have "r ^ n \<le> 1" using assms(1) by (simp add: power_le_one)
  then show ?thesis using assms(1) one_le_float_max by simp
next
  case False
  then have "r ^ n \<le> r ^ k" using assms(2) by (intro power_increasing) simp_all
  then show ?thesis using assms(1,3) by simp
qed

lemma p0_term_value:
  assumes "mu \<noteq> 0" "0 \<le> n" "\<bar>(lam / mu) ^ nat n\<bar> \<le> float_max"
  shows "p0_term lam mu n = Inr ((lam / mu) ^ nat n / fact (nat n))"
  using assms
  by (simp add: p0_term_def py_div_def py_pow_value np_div_def sp_factorial_def and_then_Inr)

lemma p0_term_overflow:
  assumes "mu \<noteq> 0" "0 \<le> n" "float_max < \<bar>(lam / mu) ^ nat n\<bar>"
  shows "p0_term lam mu n = Inl OverflowError"
  using assms
  by (simp add: p0_term_def py_div_def py_pow_overflow and_then_Inr and_then_Inl)

lemma p0_term_cases:
  assumes "mu \<noteq> 0" "0 \<le> n"
  shows "p0_term lam mu n = Inl OverflowError \<or> (\<exists>v. p0_term lam mu n = Inr v)"
proof (cases "float_max < \<bar>(lam / mu) ^ nat n\<bar>")
  case True
  then show ?thesis using assms by (simp add: p0_term_overflow)
next
  case False
  then show ?thesis using assms by (simp add: p0_term_value)
qed

lemma p0_terms_value:
  assumes "0 < lam" "0 < mu" "(lam / mu) ^ nat c \<le> float_max"
  shows "collect (map (p0_term lam mu) [0 .. c - 1]) =
         Inr (map (\<lambda>n. (lam / mu) ^ nat n / fact (nat n)) [0 .. c - 1])"
proof -
  have "p0_term lam mu n = Inr ((lam / mu) ^ nat n / fact (nat n))"
    if "n \<in> set [0 .. c - 1]" for n
  proof -
    have n: "0 \<le> n" "nat n \<le> nat c" using that by auto
    have "\<bar>(lam / mu) ^ nat n\<bar> \<le> float_max"
      using assms n(2) by (intro power_in_range [where k = "nat c"]) simp_all
    then show ?thesis using assms(2) n(1) by (intro p0_term_value) simp_all
  qed
  then have "map (p0_term lam mu) [0 .. c - 1] =
        map (\<lambda>n. Inr ((lam / mu) ^ nat n / fact (nat n))) [0 .. c - 1]"
    by (intro map_cong refl)
  then have "collect (map (p0_term lam mu) [0 .. c - 1]) =
        collect (map (\<lambda>n. Inr ((lam / mu) ^ nat n / fact (nat n))) [0 .. c - 1])"
    by (rule arg_cong)
  also have "\<dots> = Inr (map (\<lambda>n. (lam / mu) ^ nat n / fact (nat n)) [0 .. c - 1])"
    by (rule collect_all_Inr)
  finally show ?thesis .
qed

lemma p0_terms_cases:
  assumes "mu \<noteq> 0"
  shows "collect (map (p0_term lam mu) [0 .. c - 1]) = Inl OverflowError \<or>
         (\<exists>vs. collect (map (p0_term lam mu) [0 .. c - 1]) = Inr vs)"
proof (rule collect_cases, rule ballI)
  fix x assume "x \<in> set (map (p0_term lam mu) [0 .. c - 1])"
  then obtain n where "0 \<le> n" "x = p0_term lam mu n" by auto
  then show "x = Inl OverflowError \<or> (\<exists>v. x = Inr v)"
    using p0_term_cases [OF assms, of n lam] by simp
qed

lemma sum_list_map_pos:
  fixes f :: "'a \<Rightarrow> real"
  assumes "xs \<noteq> []" "\<And>x. x \<in> set xs \<Longrightarrow> 0 < f x"
  shows "0 < sum_list (map f xs)"
  using assms
proof (induction xs)
  case Nil
  then show ?case by simp
next
  case (Cons x xs)
  show ?case
  proof (cases "xs = []")
    case True
    then show ?thesis using Cons.prems by simp
  next
    case False
    then have "0 < sum_list (map f xs)" using Cons by simp
    moreover have "0 < f x" using Cons.prems by simp
    ultimately show ?thesis by simp
  qed
qed

lemma sum_value_pos:
  assumes "0 < lam" "0 < mu" "1 \<le> c"
  shows "0 < sum_value lam mu c"
proof -
  have "0 \<in> set [0 .. c - 1]" using assms by simp
  then have ne: "[0 .. c - 1] \<noteq> []" by auto
  show ?thesis unfolding sum_value_def
    using ne assms by (intro sum_list_map_pos) simp_all
qed

lemma erlang_term_value:
  assumes "q_mu_rate q \<noteq> 0" "0 \<le> q_c q" "q_rho q \<noteq> 1"
    and "\<bar>(q_lambda_rate q / q_mu_rate q) ^ nat (q_c q)\<bar> \<le> float_max"
  shows "erlang_term q = Inr (erlang_value q)"
  using assms
  by (simp add: erlang_term_def erlang_value_def p0_term_value py_div_def and_then_Inr)

lemma erlang_term_overflow:
  assumes "q_mu_rate q \<noteq> 0" "0 \<le> q_c q"
    and "float_max < \<bar>(q_lambda_rate q / q_mu_rate q) ^ nat (q_c q)\<bar>"
  shows "erlang_term q = Inl OverflowError"
  using assms by (simp add: erlang_term_def p0_term_overflow and_then_Inl)

lemma erlang_value_pos:
  assumes "0 < q_lambda_rate q" "0 < q_mu_rate q" "q_rho q < 1"
  shows "0 < erlang_value q"
  using assms by (simp add: erlang_value_def)

lemma calculate_p0_value:
  assumes "0 < q_lambda_rate q" "0 < q_mu_rate q" "1 \<le> q_c q" "q_rho q < 1"
    and "(q_lambda_rate q / q_mu_rate q) ^ nat (q_c q) \<le> float_max"
  shows "calculate_p0 q = Inr (p0_value q)"
proof -
  have "0 < sum_value (q_lambda_rate q) (q_mu_rate q) (q_c q) + erlang_value q"
    using sum_value_pos [OF assms(1,2,3)] erlang_value_pos [OF assms(1,2,4)] by simp
  then have nz: "sum_value (q_lambda_rate q) (q_mu_rate q) (q_c q) + erlang_value q \<noteq> 0"
    by simp
  have e: "erlang_term q = Inr (erlang_value q)"
    using assms by (intro erlang_term_value) simp_all
  have t: "collect (map (p0_term (q_lambda_rate q) (q_mu_rate q)) [0 .. q_c q - 1]) =
           Inr (map (\<lambda>n. (q_lambda_rate q / q_mu_rate q) ^ nat n / fact (nat n)) [0 .. q_c q - 1])"
    using assms by (intro p0_terms_value) simp_all
  show ?thesis
    unfolding calculate_p0_def t e and_then_Inr
    using nz by (simp add: np_div_def p0_value_def sum_value_def)
qed

lemma calculate_p0_overflow:
  assumes "q_mu_rate q \<noteq> 0" "0 \<le> q_c q"
    and "float_max < \<bar>(q_lambda_rate q / q_mu_rate q) ^ nat (q_c q)\<bar>"
  shows "calculate_p0 q = Inl OverflowError"
  using p0_terms_cases [OF assms(1), of "q_lambda_rate q" "q_c q"] erlang_term_overflow [OF assms]
  by (auto simp: calculate_p0_def and_then_Inl and_then_Inr)

lemma calculate_metrics_stable:
  assumes "0 < q_lambda_rate q" "0 < q_mu_rate q" "1 \<le> q_c q" "q_rho q < 1"
    and "(q_lambda_rate q / q_mu_rate q) ^ nat (q_c q) \<le> float_max"
  shows "calculate_metrics q = Inr (Stable (stable_metrics q))"
proof -
  have e: "erlang_term q = Inr (erlang_value q)"
    using assms by (intro erlang_term_value) simp_all
  show ?thesis
    unfolding calculate_metrics_def calculate_p0_value [OF assms] e and_then_Inr
    using assms
    by (simp add: is_stable_def np_div_def py_div_def and_then_Inr stable_metrics_def Let_def)
qed

lemma calculate_metrics_overflow:
  assumes "q_mu_rate q \<noteq> 0" "0 \<le> q_c q" "q_rho q < 1"
    and "float_max < \<bar>(q_lambda_rate q / q_mu_rate q) ^ nat (q_c q)\<bar>"
  shows "calculate_metrics q = Inl OverflowError"
  using assms(3) calculate_p0_overflow [OF assms(1,2,4)]
  by (simp add: calculate_metrics_def is_stable_def and_then_Inl)

lemma calculate_metrics_unstable:
  "\<not> q_rho q < 1 \<Longrightarrow>
   calculate_metrics q = Inr (Unstable (q_rho q) ''Sistema inestable: rho >= 1'')"
  by (simp add: calculate_metrics_def is_stable_def)

lemma MMcQueue_init_fields:
  assumes "MMcQueue_init lam mu c = Inr q"
  shows "q_lambda_rate q = lam" "q_mu_rate q = mu" "q_c q = c" "q_rho q = lam / (of_int c * mu)"
  using assms by (auto simp: MMcQueue_init_def py_div_def and_then_def split: if_splits)

section \<open>Little's law\<close>

text \<open>
  Claim C4. For every stable configuration (\<open>\<lambda> > 0\<close>, \<open>\<mu> > 0\<close>, \<open>c \<ge> 1\<close>,
  \<open>\<rho> < 1\<close>) the metrics that \<open>calculate_metrics\<close> returns satisfy Little's law
  exactly in real arithmetic: \<open>L = \<lambda> W\<close> and \<open>Lq = \<lambda> Wq\<close>, together with the
  defining equations \<open>Lq = Pw \<rho> / (1 - \<rho>)\<close>, \<open>Wq = Lq / \<lambda>\<close>,
  \<open>L = Lq + \<lambda> / \<mu>\<close>, \<open>W = Wq + 1 / \<mu>\<close>. Metrics are returned whenever the power
  \<open>(\<lambda>/\<mu>)\<^sup>c\<close> is within the doubles.
\<close>

theorem littles_law:
  assumes "0 < lam" "0 < mu" "1 \<le> c"
    and "MMcQueue_init lam mu c = Inr q" and "is_stable q"
  shows "((lam / mu) ^ nat c \<le> float_max \<longrightarrow> (\<exists>m. calculate_metrics q = Inr (Stable m))) \<and>
         (\<forall>m. calculate_metrics q = Inr (Stable m) \<longrightarrow>
             m_L m = lam * m_W m \<and> m_Lq m = lam * m_Wq m \<and>
             m_Lq m = m_Pw_erlang_c m * m_rho m / (1 - m_rho m) \<and>
             m_Wq m = m_Lq m / lam \<and> m_L m = m_Lq m + lam / mu \<and> m_W m = m_Wq m + 1 / mu)"
proof (cases "(lam / mu) ^ nat c \<le> float_max")
  case True
  note q = MMcQueue_init_fields [OF assms(4)]
  have m: "calculate_metrics q = Inr (Stable (stable_metrics q))"
    using assms True q(1,2,3) by (intro calculate_metrics_stable) (simp_all add: is_stable_def)
  have "m_L (stable_metrics q) = lam * m_W (stable_metrics q)"
    using assms(1,2) by (simp add: stable_metrics_def Let_def q(1,2,3) distrib_left)
  moreover have "m_Lq (stable_metrics q) = lam * m_Wq (stable_metrics q)"
    using assms(1) by (simp add: stable_metrics_def Let_def q(1,2,3))
  ultimately show ?thesis
    using m by (simp add: stable_metrics_def Let_def q(1,2,3))
next
  case False
  note q = MMcQueue_init_fields [OF assms(4)]
  have "0 < (lam / mu) ^ nat c" using assms(1,2) by simp
  then have "float_max < \<bar>(q_lambda_rate q / q_mu_rate q) ^ nat (q_c q)\<bar>"
    using False by (simp add: q(1,2,3))
  then have "calculate_metrics q = Inl OverflowError"
    using assms by (intro calculate_metrics_overflow) (simp_all add: q(1,2,3) is_stable_def)
  then show ?thesis using False by simp
qed

theorem littles_law_witness:
  "MMcQueue_init 1 1 2 = Inr \<lparr>q_lambda_rate = 1, q_mu_rate = 1, q_c = 2, q_rho = 1 / 2\<rparr> \<and>
   is_stable \<lparr>q_lambda_rate = 1, q_mu_rate = 1, q_c = 2, q_rho = 1 / 2\<rparr> \<and>
   (1 / 1 :: real) ^ nat 2 \<le> float_max \<and>
   (\<exists>m. calculate_metrics \<lparr>q_lambda_rate = 1, q_mu_rate = 1, q_c = 2, q_rho = 1 / 2\<rparr>
          = Inr (Stable m) \<and>
        m_L m = 1 * m_W m \<and> m_Lq m = 1 * m_Wq m \<and>
        m_Lq m = m_Pw_erlang_c m * m_rho m / (1 - m_rho m) \<and>
        m_Wq m = m_Lq m / 1 \<and> m_L m = m_Lq m + 1 / 1 \<and> m_W m = m_Wq m + 1 / 1)"
proof -
  have i: "MMcQueue_init 1 1 2 = Inr \<lparr>q_lambda_rate = 1, q_mu_rate = 1, q_c = 2, q_rho = 1 / 2\<rparr>"
    by (simp add: MMcQueue_init_def py_div_def and_then_def)
  have s: "is_stable \<lparr>q_lambda_rate = 1, q_mu_rate = 1, q_c = 2, q_rho = 1 / 2\<rparr>"
    by (simp add: is_stable_def)
  have r: "(1 / 1 :: real) ^ nat 2 \<le> float_max"
    using one_le_float_max by simp
  have "(0::real) < 1" "(1::int) \<le> 2" by simp_all
  from littles_law [OF this(1) this(1) this(2) i s] i s r show ?thesis by blast
qed

section \<open>Construction of a queue\<close>

text \<open>
  Claim C3. The claim is that a queue configuration with non-positive \<open>c\<close>, \<open>\<lambda>\<close>
  or \<open>\<mu>\<close> is rejected at construction. \<open>MMcQueue.__init__\<close> checks nothing: with
  \<open>\<lambda> = -1\<close>, \<open>\<mu> = 1\<close>, \<open>c = 1\<close> the queue is built with \<open>\<rho> = -1\<close>, counts as
  stable, and \<open>calculate_metrics\<close> returns metrics from it, among them \<open>P0 = 2\<close>.
  With \<open>c = 0\<close> the only failure is the division by zero in \<open>\<rho>\<close>.
\<close>

theorem construction_unchecked:
  "MMcQueue_init (- 1) 1 1 = Inr \<lparr>q_lambda_rate = - 1, q_mu_rate = 1, q_c = 1, q_rho = - 1\<rparr> \<and>
   calculate_metrics \<lparr>q_lambda_rate = - 1, q_mu_rate = 1, q_c = 1, q_rho = - 1\<rparr> =
     Inr (Stable \<lparr>m_rho = - 1, m_utilization_percent = - 100, m_P0 = 2, m_Pw_erlang_c = - 1,
                  m_Lq = 1 / 2, m_L = - 1 / 2, m_Wq = - 1 / 2, m_W = 1 / 2,
                  m_lambda = - 1, m_mu = 1, m_c = 1\<rparr>) \<and>
   MMcQueue_init 1 1 0 = Inl ZeroDivisionError"
proof -
  have small: "\<not> float_max < 1" using one_le_float_max by simp
  show ?thesis
    by (simp add: MMcQueue_init_def calculate_metrics_def calculate_p0_def erlang_term_def
        p0_term_def py_div_def np_div_def py_pow_def sp_factorial_def is_stable_def
        and_then_def upto.simps small)
qed

section \<open>The loop of \<open>optimize\<close>, step by step\<close>

lemma MMcQueue_init_value:
  assumes "mu \<noteq> 0" "c \<noteq> 0"
  shows "MMcQueue_init lam mu c = Inr (queue_of lam mu c)"
  using assms by (simp add: MMcQueue_init_def py_div_def and_then_Inr queue_of_def)

lemma queue_of_simps:
  "q_lambda_rate (queue_of lam mu c) = lam" "q_mu_rate (queue_of lam mu c) = mu"
  "q_c (queue_of lam mu c) = c" "q_rho (queue_of lam mu c) = lam / (of_int c * mu)"
  by (simp_all add: queue_of_def)

lemma calculate_metrics_queue_of:
  assumes "0 < lam" "0 < mu" "1 \<le> c" "is_stable (queue_of lam mu c)"
    and "(lam / mu) ^ nat c \<le> float_max"
  shows "calculate_metrics (queue_of lam mu c) = Inr (Stable (stable_metrics (queue_of lam mu c)))"
  using assms by (intro calculate_metrics_stable) (simp_all add: queue_of_simps is_stable_def)

lemma calculate_metrics_queue_of_overflow:
  assumes "0 < lam" "0 < mu" "1 \<le> c" "is_stable (queue_of lam mu c)"
    and "\<not> (lam / mu) ^ nat c \<le> float_max"
  shows "calculate_metrics (queue_of lam mu c) = Inl OverflowError"
proof -
  have "0 < (lam / mu) ^ nat c" using assms(1,2) by simp
  then have "float_max < \<bar>(lam / mu) ^ nat c\<bar>" using assms(5) by simp
  then show ?thesis
    using assms by (intro calculate_metrics_overflow) (simp_all add: queue_of_simps is_stable_def)
qed

lemma feasible_iff:
  "feasible opt sla_wq c \<longleftrightarrow>
     is_stable (queue_of (o_lambda_rate opt) (o_mu_rate opt) c) \<and>
     \<not> exceeds_sla sla_wq (m_Wq (metrics_at opt c))"
  by (auto simp: feasible_def is_stable_def queue_of_simps exceeds_sla_def split: option.splits)

lemma objective_function_value:
  assumes "0 < o_lambda_rate opt" "0 < o_mu_rate opt" "1 \<le> c"
    and "is_stable (queue_of (o_lambda_rate opt) (o_mu_rate opt) c)" "representable opt c"
  shows "objective_function opt (of_int c) = Inr (Z opt c)"
  using assms
  by (simp add: objective_function_def MMcQueue_init_value calculate_metrics_queue_of
      and_then_Inr Z_def metrics_at_def representable_def)

lemma optimize_step_value:
  assumes "0 < o_lambda_rate opt" "0 < o_mu_rate opt" "1 \<le> c"
    and "is_stable (queue_of (o_lambda_rate opt) (o_mu_rate opt) c) \<longrightarrow> representable opt c"
  shows "optimize_step opt sla_wq c st =
         Inr (if feasible opt sla_wq c then record_evaluation opt sla_wq c st else st)"
proof (cases "is_stable (queue_of (o_lambda_rate opt) (o_mu_rate opt) c)")
  case False
  then show ?thesis
    using assms
    by (simp add: optimize_step_def MMcQueue_init_value and_then_Inr feasible_iff)
next
  case True
  note stable = this
  then have rep: "representable opt c" using assms(4) by simp
  then have pw: "(o_lambda_rate opt / o_mu_rate opt) ^ nat c \<le> float_max"
    by (simp add: representable_def)
  show ?thesis
  proof (cases "exceeds_sla sla_wq (m_Wq (metrics_at opt c))")
    case True
    then show ?thesis
      using assms(1,2,3) stable pw
      by (simp add: optimize_step_def MMcQueue_init_value and_then_Inr feasible_iff
          calculate_metrics_queue_of metrics_at_def)
  next
    case False
    then show ?thesis
      using assms(1,2,3) stable pw rep
      by (cases st)
        (simp add: optimize_step_def MMcQueue_init_value and_then_Inr feasible_iff
          calculate_metrics_queue_of objective_function_value record_evaluation_def
          evaluation_of_def Let_def
          metrics_at_def [symmetric] split: option.split)
  qed
qed

lemma optimize_step_overflow:
  assumes "0 < o_lambda_rate opt" "0 < o_mu_rate opt" "1 \<le> c"
    and "is_stable (queue_of (o_lambda_rate opt) (o_mu_rate opt) c)" "\<not> representable opt c"
  shows "optimize_step opt sla_wq c st = Inl OverflowError"
  using assms
  by (simp add: optimize_step_def MMcQueue_init_value and_then_Inr and_then_Inl
      calculate_metrics_queue_of_overflow representable_def)

lemma optimize_loop_value:
  assumes "0 < o_lambda_rate opt" "0 < o_mu_rate opt"
    and "\<forall>c \<in> set cs. 1 \<le> c \<and> representable opt c"
  shows "optimize_loop opt sla_wq cs st = Inr (scan opt sla_wq cs st)"
  using assms(3)
proof (induction cs arbitrary: st)
  case Nil
  then show ?case by (simp add: scan_def)
next
  case (Cons c cs)
  have "optimize_step opt sla_wq c st =
        Inr (if feasible opt sla_wq c then record_evaluation opt sla_wq c st else st)"
    using assms(1,2) Cons.prems by (intro optimize_step_value) simp_all
  then show ?case using Cons by (simp add: scan_def)
qed

lemma optimize_loop_returned:
  assumes "0 < o_lambda_rate opt" "0 < o_mu_rate opt"
    and "\<forall>c \<in> set cs. 1 \<le> c" and "optimize_loop opt sla_wq cs st = Inr st'"
  shows "st' = scan opt sla_wq cs st \<and>
         (\<forall>c \<in> set cs. is_stable (queue_of (o_lambda_rate opt) (o_mu_rate opt) c) \<longrightarrow>
                          representable opt c)"
  using assms(3,4)
proof (induction cs arbitrary: st)
  case Nil
  then show ?case by (simp add: scan_def)
next
  case (Cons c cs)
  have c: "1 \<le> c" using Cons.prems(1) by simp
  have rep: "is_stable (queue_of (o_lambda_rate opt) (o_mu_rate opt) c) \<longrightarrow> representable opt c"
  proof (rule ccontr)
    assume "\<not> ?thesis"
    then have "optimize_step opt sla_wq c st = Inl OverflowError"
      using assms(1,2) c by (intro optimize_step_overflow) simp_all
    then show False using Cons.prems(2) by simp
  qed
  have step: "optimize_step opt sla_wq c st =
        Inr (if feasible opt sla_wq c then record_evaluation opt sla_wq c st else st)"
    using assms(1,2) c rep by (intro optimize_step_value)
  then have "optimize_loop opt sla_wq cs
               (if feasible opt sla_wq c then record_evaluation opt sla_wq c st else st) = Inr st'"
    using Cons.prems(2) by simp
  from Cons.IH [OF _ this] Cons.prems(1) rep show ?case by (simp add: scan_def)
qed

lemma results_foldl:
  "st_results (foldl (\<lambda>st c. record_evaluation opt sla_wq c st) st fs) =
   st_results st @ map (evaluation_of opt sla_wq) fs"
  by (induction fs arbitrary: st) (simp_all add: record_evaluation_def)

lemma best_foldl:
  "st_best (foldl (\<lambda>st c. record_evaluation opt sla_wq c st) st fs) =
   foldl (better opt) (st_best st) fs"
proof (induction fs arbitrary: st)
  case Nil
  then show ?case by simp
next
  case (Cons c fs)
  have "st_best (record_evaluation opt sla_wq c st) = better opt (st_best st) c"
    by (simp add: record_evaluation_def better_def)
  then show ?case using Cons by simp
qed

lemma better_first_minimum:
  assumes "first_minimum opt seen bc" "\<forall>x \<in> set seen. x < c"
  shows "\<exists>bc'. better opt (Some (bc, Z opt bc, metrics_at opt bc)) c =
               Some (bc', Z opt bc', metrics_at opt bc') \<and> first_minimum opt (seen @ [c]) bc'"
proof (cases "Z opt c < Z opt bc")
  case True
  have "first_minimum opt (seen @ [c]) c"
    unfolding first_minimum_def
  proof (intro conjI ballI)
    show "c \<in> set (seen @ [c])" by simp
  next
    fix x assume x: "x \<in> set (seen @ [c])"
    show "Z opt c \<le> Z opt x"
    proof (cases "x = c")
      case True then show ?thesis by simp
    next
      case False
      then have "x \<in> set seen" using x by simp
      then have "Z opt bc \<le> Z opt x" using assms(1) by (simp add: first_minimum_def)
      then show ?thesis using True by simp
    qed
    show "Z opt x = Z opt c \<longrightarrow> c \<le> x"
    proof (cases "x = c")
      case True then show ?thesis by simp
    next
      case False
      then have "x \<in> set seen" using x by simp
      then have "Z opt bc \<le> Z opt x" using assms(1) by (simp add: first_minimum_def)
      then show ?thesis using True by auto
    qed
  qed
  then show ?thesis using True by (auto simp: better_def)
next
  case False
  have bc: "bc \<in> set seen" using assms(1) by (simp add: first_minimum_def)
  have "first_minimum opt (seen @ [c]) bc"
    unfolding first_minimum_def
  proof (intro conjI ballI)
    show "bc \<in> set (seen @ [c])" using bc by simp
  next
    fix x assume x: "x \<in> set (seen @ [c])"
    show "Z opt bc \<le> Z opt x"
    proof (cases "x = c")
      case True then show ?thesis using False by simp
    next
      case False
      then have "x \<in> set seen" using x by simp
      then show ?thesis using assms(1) by (simp add: first_minimum_def)
    qed
    show "Z opt x = Z opt bc \<longrightarrow> bc \<le> x"
    proof (cases "x = c")
      case True then show ?thesis using assms(2) bc by fastforce
    next
      case False
      then have "x \<in> set seen" using x by simp
      then show ?thesis using assms(1) by (simp add: first_minimum_def)
    qed
  qed
  then show ?thesis using False by (auto simp: better_def)
qed

lemma foldl_better_first_minimum:
  assumes "sorted_wrt (<) fs" "fs \<noteq> []"
  shows "\<exists>bc. foldl (better opt) None fs = Some (bc, Z opt bc, metrics_at opt bc) \<and>
              first_minimum opt fs bc"
  using assms
proof (induction fs rule: rev_induct)
  case Nil
  then show ?case by simp
next
  case (snoc c fs)
  have less: "\<forall>x \<in> set fs. x < c" and sorted: "sorted_wrt (<) fs"
    using snoc.prems(1) by (auto simp: sorted_wrt_append)
  show ?case
  proof (cases "fs = []")
    case True
    then show ?thesis by (simp add: better_def first_minimum_def)
  next
    case False
    then obtain bc where bc: "foldl (better opt) None fs = Some (bc, Z opt bc, metrics_at opt bc)"
      and m: "first_minimum opt fs bc"
      using snoc.IH sorted by blast
    from better_first_minimum [OF m less] bc show ?thesis by simp
  qed
qed

lemma sorted_wrt_upto: "sorted_wrt (<) [i .. j]"
  by (simp add: sorted_wrt_iff_nth_less)

lemma search_range_ge:
  assumes "0 < o_lambda_rate opt" "0 < o_mu_rate opt"
  shows "\<forall>c \<in> set (search_range opt c_min c_max). 1 \<le> c"
proof -
  have "0 < o_lambda_rate opt / o_mu_rate opt" using assms by simp
  then have c1: "1 \<le> \<lceil>o_lambda_rate opt / o_mu_rate opt\<rceil>" by linarith
  show ?thesis
  proof
    fix c assume "c \<in> set (search_range opt c_min c_max)"
    then have "max c_min (\<lceil>o_lambda_rate opt / o_mu_rate opt\<rceil> + 1) \<le> c"
      unfolding search_range_def set_upto by (simp only: atLeastAtMost_iff)
    with c1 show "1 \<le> c" by linarith
  qed
qed

lemma search_range_representable:
  assumes "0 < o_lambda_rate opt" "0 < o_mu_rate opt"
    and "search_range opt c_min c_max = [] \<or> representable opt c_max"
  shows "\<forall>c \<in> set (search_range opt c_min c_max). 1 \<le> c \<and> representable opt c"
proof
  fix c assume c: "c \<in> set (search_range opt c_min c_max)"
  then have rep: "representable opt c_max" using assms(3) by auto
  have "c \<le> c_max" using c by (simp add: search_range_def)
  then have "nat c \<le> nat c_max" by simp
  moreover have "0 < o_lambda_rate opt / o_mu_rate opt" using assms(1,2) by simp
  ultimately have "\<bar>(o_lambda_rate opt / o_mu_rate opt) ^ nat c\<bar> \<le> float_max"
    using rep unfolding representable_def by (intro power_in_range [where k = "nat c_max"])
  then have "representable opt c"
    using assms(1,2) by (simp add: representable_def)
  then show "1 \<le> c \<and> representable opt c"
    using search_range_ge [OF assms(1,2)] c by blast
qed

lemma optimize_unfold:
  assumes "0 < o_lambda_rate opt" "0 < o_mu_rate opt"
  shows "optimize opt c_min c_max sla_wq =
         and_then (optimize_loop opt sla_wq (search_range opt c_min c_max)
                     \<lparr>st_best = None, st_results = []\<rparr>)
           (\<lambda>st. Inr (answer opt sla_wq st))"
proof -
  have "(case st_best st of
           None \<Rightarrow> Inr (Infeasible no_solution_message)
         | Some (best_c, best_cost, best_metrics) \<Rightarrow>
             Inr (Optimum
               \<lparr>r_optimal_c = best_c, r_total_cost = best_cost,
                r_server_cost = of_int best_c * o_cost_server opt,
                r_waiting_cost = m_Lq best_metrics * o_cost_waiting opt,
                r_metrics = best_metrics, r_all_results = st_results st, r_sla_wq = sla_wq\<rparr>))
        = (Inr (answer opt sla_wq st) :: py_error + optimize_result)" for st
    by (simp add: answer_def split: option.split prod.split)
  then show ?thesis
    using assms
    by (simp add: optimize_def py_div_def and_then_Inr Let_def search_range_def [symmetric])
qed

lemma optimize_value:
  assumes "0 < o_lambda_rate opt" "0 < o_mu_rate opt"
    and "search_range opt c_min c_max = [] \<or> representable opt c_max"
  shows "optimize opt c_min c_max sla_wq =
         Inr (answer opt sla_wq
                (scan opt sla_wq (search_range opt c_min c_max) \<lparr>st_best = None, st_results = []\<rparr>))"
  unfolding optimize_unfold [OF assms(1,2)]
    optimize_loop_value [OF assms(1,2) search_range_representable [OF assms]]
  by (simp add: and_then_Inr)

lemma optimize_returned:
  assumes "0 < o_lambda_rate opt" "0 < o_mu_rate opt"
    and "optimize opt c_min c_max sla_wq = Inr res"
  shows "res = answer opt sla_wq
                (scan opt sla_wq (search_range opt c_min c_max) \<lparr>st_best = None, st_results = []\<rparr>) \<and>
         (\<forall>c \<in> set (search_range opt c_min c_max).
            is_stable (queue_of (o_lambda_rate opt) (o_mu_rate opt) c) \<longrightarrow> representable opt c)"
proof -
  obtain st where st: "optimize_loop opt sla_wq (search_range opt c_min c_max)
                         \<lparr>st_best = None, st_results = []\<rparr> = Inr st"
    and res: "res = answer opt sla_wq st"
    using assms(3) unfolding optimize_unfold [OF assms(1,2)]
    by (auto simp: and_then_def split: sum.splits)
  from optimize_loop_returned [OF assms(1,2) search_range_ge [OF assms(1,2)] st] res
  show ?thesis by simp
qed

lemma search_range_stable:
  assumes "0 < o_lambda_rate opt" "0 < o_mu_rate opt"
    and "c \<in> set (search_range opt c_min c_max)"
  shows "is_stable (queue_of (o_lambda_rate opt) (o_mu_rate opt) c)"
proof -
  have c1: "1 \<le> c" using search_range_ge [OF assms(1,2)] assms(3) by blast
  have "\<lceil>o_lambda_rate opt / o_mu_rate opt\<rceil> + 1 \<le> c"
    using assms(3) unfolding search_range_def set_upto by simp
  then have "o_lambda_rate opt / o_mu_rate opt < of_int c" by linarith
  then have "o_lambda_rate opt / (of_int c * o_mu_rate opt) < 1"
    using assms(2) c1 by (simp add: field_simps)
  then show ?thesis by (simp add: is_stable_def queue_of_simps)
qed

lemma optimize_loop_cases:
  assumes "0 < o_lambda_rate opt" "0 < o_mu_rate opt" "\<forall>c \<in> set cs. 1 \<le> c"
  shows "optimize_loop opt sla_wq cs st = Inl OverflowError \<or>
         (\<exists>st'. optimize_loop opt sla_wq cs st = Inr st')"
  using assms(3)
proof (induction cs arbitrary: st)
  case Nil
  then show ?case by simp
next
  case (Cons c cs)
  have c: "1 \<le> c" using Cons.prems by simp
  show ?case
  proof (cases "is_stable (queue_of (o_lambda_rate opt) (o_mu_rate opt) c) \<and> \<not> representable opt c")
    case True
    then have "optimize_step opt sla_wq c st = Inl OverflowError"
      using assms(1,2) c by (intro optimize_step_overflow) simp_all
    then show ?thesis by simp
  next
    case False
    then have "optimize_step opt sla_wq c st =
        Inr (if feasible opt sla_wq c then record_evaluation opt sla_wq c st else st)"
      using assms(1,2) c by (intro optimize_step_value) auto
    then show ?thesis using Cons by simp
  qed
qed

lemma optimize_raises:
  assumes "0 < o_lambda_rate opt" "0 < o_mu_rate opt"
    and "search_range opt c_min c_max \<noteq> []" "\<not> representable opt c_max"
  shows "optimize opt c_min c_max sla_wq = Inl OverflowError"
proof -
  let ?loop = "optimize_loop opt sla_wq (search_range opt c_min c_max) \<lparr>st_best = None, st_results = []\<rparr>"
  have top: "c_max \<in> set (search_range opt c_min c_max)"
    using assms(3) by (auto simp: search_range_def)
  have "?loop = Inl OverflowError"
  proof (rule ccontr)
    assume "?loop \<noteq> Inl OverflowError"
    then obtain st' where "?loop = Inr st'"
      using optimize_loop_cases [OF assms(1,2) search_range_ge [OF assms(1,2)]] by blast
    from optimize_loop_returned [OF assms(1,2) search_range_ge [OF assms(1,2)] this]
    have "representable opt c_max"
      using top search_range_stable [OF assms(1,2) top] by blast
    then show False using assms(4) by simp
  qed
  then show ?thesis
    unfolding optimize_unfold [OF assms(1,2)] by (simp add: and_then_Inl)
qed

text \<open>What the final values of the loop variables are, when the loop has gone through
  every \<open>c\<close> of the range.\<close>

lemma answer_of_scan:
  fixes opt sla_wq c_min c_max
  defines "fs \<equiv> filter (feasible opt sla_wq) (search_range opt c_min c_max)"
    and "st \<equiv> scan opt sla_wq (search_range opt c_min c_max) \<lparr>st_best = None, st_results = []\<rparr>"
  shows "fs = [] \<Longrightarrow> answer opt sla_wq st = Infeasible no_solution_message"
    and "fs \<noteq> [] \<Longrightarrow>
         \<exists>r. answer opt sla_wq st = Optimum r \<and>
             r_all_results r = map (evaluation_of opt sla_wq) fs \<and>
             first_minimum opt fs (r_optimal_c r) \<and>
             r_total_cost r = Z opt (r_optimal_c r)"
proof -
  have best: "st_best st = foldl (better opt) None fs"
    and res: "st_results st = map (evaluation_of opt sla_wq) fs"
    by (simp_all add: st_def fs_def scan_def best_foldl results_foldl)
  show "answer opt sla_wq st = Infeasible no_solution_message" if "fs = []"
    using that best by (simp add: answer_def)
  show "\<exists>r. answer opt sla_wq st = Optimum r \<and>
             r_all_results r = map (evaluation_of opt sla_wq) fs \<and>
             first_minimum opt fs (r_optimal_c r) \<and>
             r_total_cost r = Z opt (r_optimal_c r)" if "fs \<noteq> []"
  proof -
    have "sorted_wrt (<) fs"
      unfolding fs_def search_range_def by (intro sorted_wrt_filter sorted_wrt_upto)
    from foldl_better_first_minimum [OF this that, of opt]
    obtain bc where "st_best st = Some (bc, Z opt bc, metrics_at opt bc)"
      and "first_minimum opt fs bc"
      using best by auto
    then show ?thesis using res by (simp add: answer_def)
  qed
qed

lemma p0_value_pos:
  assumes "0 < q_lambda_rate q" "0 < q_mu_rate q" "1 \<le> q_c q" "q_rho q < 1"
  shows "0 < p0_value q"
  using sum_value_pos [OF assms(1,2,3)] erlang_value_pos [OF assms(1,2,4)]
  by (simp add: p0_value_def)

lemma Wq_pos:
  assumes "0 < o_lambda_rate opt" "0 < o_mu_rate opt" "1 \<le> c"
    and "o_lambda_rate opt / (of_int c * o_mu_rate opt) < 1"
  shows "0 < m_Wq (metrics_at opt c)"
proof -
  let ?q = "queue_of (o_lambda_rate opt) (o_mu_rate opt) c"
  have rho: "0 < q_rho ?q" "q_rho ?q < 1"
    using assms by (simp_all add: queue_of_simps)
  have "0 < erlang_value ?q"
    using assms rho by (intro erlang_value_pos) (simp_all add: queue_of_simps)
  moreover have "0 < p0_value ?q"
    using assms rho by (intro p0_value_pos) (simp_all add: queue_of_simps)
  ultimately have lq: "0 < erlang_value ?q * p0_value ?q * q_rho ?q / (1 - q_rho ?q)"
    using rho by simp
  have lam: "0 < q_lambda_rate ?q" using assms(1) by (simp add: queue_of_simps)
  have "m_Wq (metrics_at opt c) =
        erlang_value ?q * p0_value ?q * q_rho ?q / (1 - q_rho ?q) / q_lambda_rate ?q"
    unfolding metrics_at_def stable_metrics_def Let_def by simp
  with divide_pos_pos [OF lq lam] show ?thesis by (simp only:)
qed

lemma float_max_less: "float_max < 150 ^ 151"
  by (simp add: float_max_def)

section \<open>The search of \<open>optimize\<close>\<close>

text \<open>
  Claim C1. For \<open>\<lambda>, \<mu> > 0\<close>, any cost coefficients, any bounds and an optional SLA
  threshold. A \<open>c\<close> is feasible when \<open>\<rho> = \<lambda> / (c \<mu>) < 1\<close> and, if a threshold is
  given, \<open>Wq(c)\<close> is not above it. Whenever \<open>optimize\<close> returns a success, its
  evaluation table lists exactly the feasible integers of
  \<open>[max(cMin, \<lceil>\<lambda>/\<mu>\<rceil> + 1), cMax]\<close>, in ascending order, each with the cost
  \<open>Z(c) = c * serverCost + Lq(c) * waitingCost\<close> that \<open>objective_function\<close> returns, and
  \<open>optimal_c\<close> is the smallest feasible \<open>c\<close> among those of least cost. It does return
  a success when some \<open>c\<close> of the range is feasible and the power \<open>(\<lambda>/\<mu>)\<close> to \<open>cMax\<close> is
  within the doubles.
\<close>

theorem optimize_selects_first_minimum:
  assumes "0 < o_lambda_rate opt" "0 < o_mu_rate opt"
  shows "(filter (feasible opt sla_wq) (search_range opt c_min c_max) \<noteq> [] \<and>
            representable opt c_max \<longrightarrow>
            (\<exists>r. optimize opt c_min c_max sla_wq = Inr (Optimum r))) \<and>
         (\<forall>r. optimize opt c_min c_max sla_wq = Inr (Optimum r) \<longrightarrow>
             map e_c (r_all_results r) = filter (feasible opt sla_wq) (search_range opt c_min c_max) \<and>
             sorted_wrt (<) (map e_c (r_all_results r)) \<and>
             (\<forall>e \<in> set (r_all_results r).
                objective_function opt (of_int (e_c e)) = Inr (Z opt (e_c e)) \<and>
                e_cost e = Z opt (e_c e) \<and> e_Lq e = m_Lq (metrics_at opt (e_c e)) \<and>
                e_Wq e = m_Wq (metrics_at opt (e_c e))) \<and>
             first_minimum opt (filter (feasible opt sla_wq) (search_range opt c_min c_max))
               (r_optimal_c r) \<and>
             r_total_cost r = Z opt (r_optimal_c r))"
proof (intro conjI impI allI)
  let ?fs = "filter (feasible opt sla_wq) (search_range opt c_min c_max)"
  let ?st = "scan opt sla_wq (search_range opt c_min c_max) \<lparr>st_best = None, st_results = []\<rparr>"
  {
    assume h: "?fs \<noteq> [] \<and> representable opt c_max"
    then have "optimize opt c_min c_max sla_wq = Inr (answer opt sla_wq ?st)"
      using assms by (intro optimize_value) simp_all
    moreover obtain r where "answer opt sla_wq ?st = Optimum r"
      using answer_of_scan(2) [of opt sla_wq c_min c_max] h by blast
    ultimately show "\<exists>r. optimize opt c_min c_max sla_wq = Inr (Optimum r)" by simp
  }
  fix r assume ret: "optimize opt c_min c_max sla_wq = Inr (Optimum r)"
  from optimize_returned [OF assms ret]
  have ans: "answer opt sla_wq ?st = Optimum r"
    and rep: "\<forall>c \<in> set (search_range opt c_min c_max).
            is_stable (queue_of (o_lambda_rate opt) (o_mu_rate opt) c) \<longrightarrow> representable opt c"
    by simp_all
  have ne: "?fs \<noteq> []"
    using answer_of_scan(1) [of opt sla_wq c_min c_max] ans by auto
  from answer_of_scan(2) [OF ne] ans
  have table: "r_all_results r = map (evaluation_of opt sla_wq) ?fs"
    and m: "first_minimum opt ?fs (r_optimal_c r)"
    and t: "r_total_cost r = Z opt (r_optimal_c r)"
    by auto
  show cs: "map e_c (r_all_results r) = ?fs"
    unfolding table by (simp add: comp_def evaluation_of_def)
  show "sorted_wrt (<) (map e_c (r_all_results r))"
    unfolding cs search_range_def by (intro sorted_wrt_filter sorted_wrt_upto)
  show "first_minimum opt ?fs (r_optimal_c r)" by (rule m)
  show "r_total_cost r = Z opt (r_optimal_c r)" by (rule t)
  show "\<forall>e \<in> set (r_all_results r).
          objective_function opt (of_int (e_c e)) = Inr (Z opt (e_c e)) \<and>
          e_cost e = Z opt (e_c e) \<and> e_Lq e = m_Lq (metrics_at opt (e_c e)) \<and>
          e_Wq e = m_Wq (metrics_at opt (e_c e))"
  proof
    fix e assume "e \<in> set (r_all_results r)"
    then obtain c where c: "c \<in> set ?fs" and e: "e = evaluation_of opt sla_wq c"
      unfolding table by auto
    have c1: "1 \<le> c" using c search_range_ge [OF assms] by auto
    have "feasible opt sla_wq c" using c by simp
    then have stable: "is_stable (queue_of (o_lambda_rate opt) (o_mu_rate opt) c)"
      by (simp add: feasible_iff)
    then have "representable opt c" using rep c by simp
    with stable c1 have "objective_function opt (of_int c) = Inr (Z opt c)"
      using assms by (intro objective_function_value)
    then show "objective_function opt (of_int (e_c e)) = Inr (Z opt (e_c e)) \<and>
               e_cost e = Z opt (e_c e) \<and> e_Lq e = m_Lq (metrics_at opt (e_c e)) \<and>
               e_Wq e = m_Wq (metrics_at opt (e_c e))"
      by (simp add: e evaluation_of_def)
  qed
qed

text \<open>
  Claim C6, as amended. For \<open>\<lambda>, \<mu> > 0\<close>: when no integer of the range
  \<open>[max(cMin, \<lceil>\<lambda>/\<mu>\<rceil> + 1), cMax]\<close> is feasible, and the range is empty or the power
  \<open>(\<lambda>/\<mu>)\<close> to \<open>cMax\<close> is within the doubles, \<open>optimize\<close> raises nothing and returns the
  result with \<open>success = False\<close>, which holds a message and no \<open>optimal_c\<close>. When the
  range is not empty and that power is beyond the doubles, it raises \<open>OverflowError\<close>.
\<close>

theorem optimize_infeasible:
  assumes "0 < o_lambda_rate opt" "0 < o_mu_rate opt"
    and "filter (feasible opt sla_wq) (search_range opt c_min c_max) = []"
  shows "(search_range opt c_min c_max = [] \<or> representable opt c_max \<longrightarrow>
            optimize opt c_min c_max sla_wq = Inr (Infeasible no_solution_message)) \<and>
         (search_range opt c_min c_max \<noteq> [] \<and> \<not> representable opt c_max \<longrightarrow>
            optimize opt c_min c_max sla_wq = Inl OverflowError)"
proof (intro conjI impI)
  assume h: "search_range opt c_min c_max = [] \<or> representable opt c_max"
  show "optimize opt c_min c_max sla_wq = Inr (Infeasible no_solution_message)"
    unfolding optimize_value [OF assms(1,2) h]
    using answer_of_scan(1) [OF assms(3)] by simp
next
  assume "search_range opt c_min c_max \<noteq> [] \<and> \<not> representable opt c_max"
  then show "optimize opt c_min c_max sla_wq = Inl OverflowError"
    using assms(1,2) by (intro optimize_raises) simp_all
qed

lemmas eval_defs = unit_optimizer_def Z_def metrics_at_def stable_metrics_def queue_of_def p0_value_def
  erlang_value_def sum_value_def Let_def upto.simps

lemma Z3: "Z unit_optimizer 3 = 67 / 22"
  by (simp add: eval_defs fact_numeral)

lemma Z4: "Z unit_optimizer 4 = 589 / 147"
  by (simp add: eval_defs fact_numeral)

lemma Wq2: "m_Wq (metrics_at unit_optimizer 2) = 1 / 3"
  by (simp add: eval_defs)

lemma Wq3: "m_Wq (metrics_at unit_optimizer 3) = 1 / 22"
  by (simp add: eval_defs fact_numeral)

lemma Wq4: "m_Wq (metrics_at unit_optimizer 4) = 1 / 147"
  by (simp add: eval_defs fact_numeral)

lemma unit_positive: "0 < o_lambda_rate unit_optimizer" "0 < o_mu_rate unit_optimizer"
  by (simp_all add: unit_optimizer_def)

lemma unit_representable: "representable unit_optimizer c"
  using one_le_float_max by (simp add: representable_def unit_optimizer_def)

lemma range14: "search_range unit_optimizer 1 4 = [2, 3, 4]"
  by (simp add: search_range_def unit_optimizer_def upto.simps)

lemma feas14:
  "filter (feasible unit_optimizer (Some (1 / 10))) (search_range unit_optimizer 1 4) = [3, 4]"
  unfolding range14
  by (simp add: feasible_def Wq2 Wq3 Wq4) (simp add: unit_optimizer_def)

theorem optimize_selects_first_minimum_witness:
  "search_range unit_optimizer 1 4 = [2, 3, 4] \<and>
   filter (feasible unit_optimizer (Some (1 / 10))) (search_range unit_optimizer 1 4) = [3, 4] \<and>
   representable unit_optimizer 4 \<and>
   (\<exists>r. optimize unit_optimizer 1 4 (Some (1 / 10)) = Inr (Optimum r) \<and>
        map e_c (r_all_results r) = [3, 4] \<and>
        map e_cost (r_all_results r) = [67 / 22, 589 / 147] \<and>
        map e_Wq (r_all_results r) = [1 / 22, 1 / 147] \<and>
        r_optimal_c r = 3 \<and> r_total_cost r = 67 / 22)"
proof -
  note inst = optimize_selects_first_minimum
    [OF unit_positive, of "Some (1 / 10)" 1 4, unfolded feas14]
  from inst [THEN conjunct1] unit_representable
  obtain r where r: "optimize unit_optimizer 1 4 (Some (1 / 10)) = Inr (Optimum r)"
    by auto
  from inst [THEN conjunct2, rule_format, OF r]
  have cs: "map e_c (r_all_results r) = [3, 4]"
    and rows: "\<forall>e \<in> set (r_all_results r).
        objective_function unit_optimizer (of_int (e_c e)) = Inr (Z unit_optimizer (e_c e)) \<and>
        e_cost e = Z unit_optimizer (e_c e) \<and>
        e_Lq e = m_Lq (metrics_at unit_optimizer (e_c e)) \<and>
        e_Wq e = m_Wq (metrics_at unit_optimizer (e_c e))"
    and m: "first_minimum unit_optimizer [3, 4] (r_optimal_c r)"
    and t: "r_total_cost r = Z unit_optimizer (r_optimal_c r)"
    by simp_all
  have o: "r_optimal_c r = 3"
    using m by (auto simp: first_minimum_def Z3 Z4)
  have "map e_cost (r_all_results r) = map (Z unit_optimizer) (map e_c (r_all_results r))"
    using rows by (simp add: comp_def)
  then have costs: "map e_cost (r_all_results r) = [67 / 22, 589 / 147]"
    by (simp add: cs Z3 Z4)
  have "map e_Wq (r_all_results r) =
        map (\<lambda>c. m_Wq (metrics_at unit_optimizer c)) (map e_c (r_all_results r))"
    using rows by (simp add: comp_def)
  then have waits: "map e_Wq (r_all_results r) = [1 / 22, 1 / 147]"
    by (simp add: cs Wq3 Wq4)
  show ?thesis
    using range14 feas14 unit_representable r cs costs waits o t by (auto simp: Z3)
qed

theorem optimize_infeasible_witness:
  "search_range unit_optimizer 1 2 = [2] \<and>
   filter (feasible unit_optimizer (Some 0)) (search_range unit_optimizer 1 2) = [] \<and>
   representable unit_optimizer 2 \<and>
   optimize unit_optimizer 1 2 (Some 0) = Inr (Infeasible no_solution_message) \<and>
   search_range unit_optimizer 1 1 = [] \<and>
   optimize unit_optimizer 1 1 None = Inr (Infeasible no_solution_message)"
proof -
  have r2: "search_range unit_optimizer 1 2 = [2]"
    by (simp add: search_range_def unit_optimizer_def upto.simps)
  have r1: "search_range unit_optimizer 1 1 = []"
    by (simp add: search_range_def unit_optimizer_def)
  have f2: "filter (feasible unit_optimizer (Some 0)) (search_range unit_optimizer 1 2) = []"
    unfolding r2 by (simp add: feasible_def Wq2)
  have f1: "filter (feasible unit_optimizer None) (search_range unit_optimizer 1 1) = []"
    unfolding r1 by simp
  have h2: "search_range unit_optimizer 1 2 = [] \<or> representable unit_optimizer 2"
    using unit_representable by simp
  have h1: "search_range unit_optimizer 1 1 = [] \<or> representable unit_optimizer 1"
    using r1 by simp
  from optimize_infeasible [OF unit_positive f2, THEN conjunct1, rule_format, OF h2]
    optimize_infeasible [OF unit_positive f1, THEN conjunct1, rule_format, OF h1]
    f2 r2 r1 unit_representable
  show ?thesis by simp
qed

text \<open>
  Claim C6 as stated fails. With \<open>\<lambda> = 150\<close>, \<open>\<mu> = 1\<close>, \<open>cMin = 1\<close>, \<open>cMax = 151\<close> and
  the SLA threshold 0 the range is the single stable \<open>c = 151\<close>, which is not feasible,
  its wait being positive. \<open>optimize\<close> computes the metrics before it tests the SLA, and
  the power \<open>150\<^sup>n\<close> in them leaves the doubles: the call raises \<open>OverflowError\<close>.
\<close>

theorem optimize_infeasible_raises:
  "search_range busy_optimizer 1 151 = [151] \<and>
   filter (feasible busy_optimizer (Some 0)) (search_range busy_optimizer 1 151) = [] \<and>
   optimize busy_optimizer 1 151 (Some 0) = Inl OverflowError"
proof -
  have pos: "0 < o_lambda_rate busy_optimizer" "0 < o_mu_rate busy_optimizer"
    by (simp_all add: busy_optimizer_def)
  have r: "search_range busy_optimizer 1 151 = [151]"
    by (simp add: search_range_def busy_optimizer_def upto.simps)
  have "o_lambda_rate busy_optimizer / (of_int 151 * o_mu_rate busy_optimizer) < 1"
    by (simp add: busy_optimizer_def)
  from Wq_pos [OF pos _ this] have "0 < m_Wq (metrics_at busy_optimizer 151)" by simp
  then have f: "filter (feasible busy_optimizer (Some 0)) (search_range busy_optimizer 1 151) = []"
    unfolding r by (simp add: feasible_def)
  have "\<not> representable busy_optimizer 151"
    using float_max_less by (simp add: representable_def busy_optimizer_def)
  moreover have "search_range busy_optimizer 1 151 \<noteq> []" by (simp add: r)
  ultimately have "optimize busy_optimizer 1 151 (Some 0) = Inl OverflowError"
    using pos by (intro optimize_raises)
  with r f show ?thesis by simp
qed

lemma sensitivity_loop_unstable:
  assumes "\<forall>c \<in> set cs. \<exists>q. MMcQueue_init (o_lambda_rate opt) (o_mu_rate opt) c = Inr q \<and> \<not> is_stable q"
  shows "sensitivity_loop opt cs res = Inr res"
  using assms
proof (induction cs)
  case Nil
  then show ?case by simp
next
  case (Cons c cs)
  then obtain q where "MMcQueue_init (o_lambda_rate opt) (o_mu_rate opt) c = Inr q" "\<not> is_stable q"
    by auto
  then have "sensitivity_step opt c res = Inr res"
    by (simp add: sensitivity_step_def and_then_Inr)
  then show ?case using Cons by simp
qed

section \<open>Sensitivity analysis without a stable queue\<close>

text \<open>
  Claim C10, as amended. When every integer \<open>c\<close> of the sensitivity range gives a queue,
  and none of these queues is stable, \<open>sensitivity_analysis\<close> returns a result whose
  seven sequences are empty and which has neither \<open>optimal_c\<close> nor \<open>optimal_cost\<close>; the
  result type has no success flag and no message.
\<close>

theorem sensitivity_without_stable_queue:
  assumes "\<forall>c \<in> set [c_min .. c_max].
             \<exists>q. MMcQueue_init (o_lambda_rate opt) (o_mu_rate opt) c = Inr q \<and> \<not> is_stable q"
  shows "\<exists>res. sensitivity_analysis opt (Some (c_min, c_max)) = Inr res \<and>
           s_c_values res = [] \<and> s_total_costs res = [] \<and> s_server_costs res = [] \<and>
           s_waiting_costs res = [] \<and> s_utilizations res = [] \<and> s_wq_values res = [] \<and>
           s_lq_values res = [] \<and> s_optimal_c res = None \<and> s_optimal_cost res = None"
  using sensitivity_loop_unstable [OF assms]
  by (simp add: sensitivity_analysis_def and_then_Inr)

theorem sensitivity_without_stable_queue_witness:
  "MMcQueue_init 5 1 1 = Inr \<lparr>q_lambda_rate = 5, q_mu_rate = 1, q_c = 1, q_rho = 5\<rparr> \<and>
   MMcQueue_init 5 1 2 = Inr \<lparr>q_lambda_rate = 5, q_mu_rate = 1, q_c = 2, q_rho = 5 / 2\<rparr> \<and>
   \<not> is_stable \<lparr>q_lambda_rate = 5, q_mu_rate = 1, q_c = 1, q_rho = 5\<rparr> \<and>
   \<not> is_stable \<lparr>q_lambda_rate = 5, q_mu_rate = 1, q_c = 2, q_rho = 5 / 2\<rparr> \<and>
   (\<exists>res. sensitivity_analysis
           \<lparr>o_lambda_rate = 5, o_mu_rate = 1, o_cost_server = 50, o_cost_waiting = 20\<rparr>
           (Some (1, 2)) = Inr res \<and>
         s_c_values res = [] \<and> s_total_costs res = [] \<and> s_server_costs res = [] \<and>
         s_waiting_costs res = [] \<and> s_utilizations res = [] \<and> s_wq_values res = [] \<and>
         s_lq_values res = [] \<and> s_optimal_c res = None \<and> s_optimal_cost res = None)"
proof -
  have i: "MMcQueue_init 5 1 1 = Inr \<lparr>q_lambda_rate = 5, q_mu_rate = 1, q_c = 1, q_rho = 5\<rparr>"
    "MMcQueue_init 5 1 2 = Inr \<lparr>q_lambda_rate = 5, q_mu_rate = 1, q_c = 2, q_rho = 5 / 2\<rparr>"
    by (simp_all add: MMcQueue_init_def py_div_def and_then_Inr)
  have u: "\<not> is_stable \<lparr>q_lambda_rate = 5, q_mu_rate = 1, q_c = 1, q_rho = 5\<rparr>"
    "\<not> is_stable \<lparr>q_lambda_rate = 5, q_mu_rate = 1, q_c = 2, q_rho = 5 / 2\<rparr>"
    by (simp_all add: is_stable_def)
  have "\<forall>c \<in> set [1 .. 2].
          \<exists>q. MMcQueue_init
                 (o_lambda_rate \<lparr>o_lambda_rate = 5, o_mu_rate = 1, o_cost_server = 50, o_cost_waiting = 20\<rparr>)
                 (o_mu_rate \<lparr>o_lambda_rate = 5, o_mu_rate = 1, o_cost_server = 50, o_cost_waiting = 20\<rparr>) c
               = Inr q \<and> \<not> is_stable q"
    using i u by (simp add: upto.simps)
  from sensitivity_without_stable_queue [OF this] i u show ?thesis by simp
qed

text \<open>
  Claim C10 as stated fails. For \<open>\<lambda> = 5\<close>, \<open>\<mu> = 1\<close> and the range from 0 to 2 no
  integer of the range gives a stable queue, and \<open>sensitivity_analysis\<close> returns nothing:
  building the queue with \<open>c = 0\<close> divides by zero.
\<close>

theorem sensitivity_zero_servers:
  "filter (yields_stable_queue
             \<lparr>o_lambda_rate = 5, o_mu_rate = 1, o_cost_server = 50, o_cost_waiting = 20\<rparr>) [0 .. 2] = [] \<and>
   sensitivity_analysis
     \<lparr>o_lambda_rate = 5, o_mu_rate = 1, o_cost_server = 50, o_cost_waiting = 20\<rparr> (Some (0, 2)) =
     Inl ZeroDivisionError"
  by (simp add: yields_stable_queue_def sensitivity_analysis_def sensitivity_step_def
      MMcQueue_init_def py_div_def is_stable_def and_then_def upto.simps)

lemma fit_loop_entries:
  assumes "data \<noteq> []"
  shows "\<exists>r p. fit_loop lib data names (results, printed) = Inr (r, p) \<and>
               map_of r = fitted_entry lib data results names"
proof (induction names arbitrary: results printed)
  case Nil
  then show ?case by (simp add: fitted_entry_def fun_eq_iff)
next
  case (Cons name names)
  show ?case
  proof (cases "fit_family lib data name")
    case (Inl e)
    obtain r p where rp: "fit_loop lib data names (results, printed @ [(name, e)]) = Inr (r, p)"
      and m: "map_of r = fitted_entry lib data results names"
      using Cons.IH by blast
    have "fitted_entry lib data results names = fitted_entry lib data results (name # names)"
      using Inl by (auto simp: fitted_entry_def fun_eq_iff)
    then show ?thesis using Inl rp m by simp
  next
    case (Inr info)
    obtain r p where rp: "fit_loop lib data names (AList.update name info results, printed) = Inr (r, p)"
      and m: "map_of r = fitted_entry lib data (AList.update name info results) names"
      using Cons.IH by blast
    have "fitted_entry lib data (AList.update name info results) names =
          fitted_entry lib data results (name # names)"
      using Inr by (auto simp: fitted_entry_def fun_eq_iff update_conv' split: sum.splits)
    then show ?thesis using Inr rp m assms by simp
  qed
qed

section \<open>Batch fitting\<close>

text \<open>
  Claim C7. For every non-empty sample and every list of candidate families,
  \<open>fit_distributions\<close> returns, whatever fails on the way: every family of the list whose
  fit and log-likelihood succeed has its entry, with \<open>AIC = 2k - 2 logLikelihood\<close> and
  \<open>BIC = k ln(n) - 2 logLikelihood\<close>, where \<open>k\<close> is the number of fitted parameters and
  \<open>n\<close> the sample size; a family whose fit fails has no entry.
\<close>

theorem fit_distributions_batch:
  assumes "data \<noteq> []"
  shows "\<exists>results printed.
           fit_distributions lib data distributions = Inr (results, printed) \<and>
           (\<forall>name \<in> set distributions. \<forall>params ll.
              lib_fit lib name data = Inr params \<longrightarrow>
              lib_logpdf_sum lib name params data = Inr ll \<longrightarrow>
              map_of results name =
                Some \<lparr>f_params = params, f_dist_object = name, f_log_likelihood = ll,
                      f_aic = 2 * real (length params) - 2 * ll,
                      f_bic = real (length params) * ln (real (length data)) - 2 * ll\<rparr>) \<and>
           (\<forall>name e. fit_family lib data name = Inl e \<longrightarrow> map_of results name = None)"
proof -
  obtain r p where rp: "fit_loop lib data distributions ([], []) = Inr (r, p)"
    and m: "map_of r = fitted_entry lib data [] distributions"
    using fit_loop_entries [OF assms] by blast
  have "map_of r name =
          Some \<lparr>f_params = params, f_dist_object = name, f_log_likelihood = ll,
                f_aic = 2 * real (length params) - 2 * ll,
                f_bic = real (length params) * ln (real (length data)) - 2 * ll\<rparr>"
    if "name \<in> set distributions" "lib_fit lib name data = Inr params"
      "lib_logpdf_sum lib name params data = Inr ll" for name params ll
    using that by (simp add: m fitted_entry_def fit_family_def and_then_Inr Let_def)
  moreover have "map_of r name = None" if "fit_family lib data name = Inl e" for name e
    using that by (simp add: m fitted_entry_def)
  ultimately show ?thesis using rp by (auto simp: fit_distributions_def)
qed

theorem fit_distributions_batch_witness:
  "[1, 3] \<noteq> ([] :: real list) \<and>
   lib_fit (stub_library ([], [])) ''gamma'' [1, 3] = Inl (LibraryError ''gamma'') \<and>
   lib_fit (stub_library ([], [])) ''expon'' [1, 3] = Inr [0, 2] \<and>
   lib_logpdf_sum (stub_library ([], [])) ''expon'' [0, 2] [1, 3] = Inr (- 4) \<and>
   (\<exists>results printed.
      fit_distributions (stub_library ([], [])) [1, 3] [''gamma'', ''expon''] = Inr (results, printed) \<and>
      map_of results ''gamma'' = None \<and>
      map_of results ''expon'' =
        Some \<lparr>f_params = [0, 2], f_dist_object = ''expon'', f_log_likelihood = - 4,
              f_aic = 12, f_bic = 2 * ln 2 + 8\<rparr>)"
proof -
  let ?lib = "stub_library ([], [])"
  have d: "[1, 3] \<noteq> ([] :: real list)" by simp
  have g: "lib_fit ?lib ''gamma'' [1, 3] = Inl (LibraryError ''gamma'')"
    and e: "lib_fit ?lib ''expon'' [1, 3] = Inr [0, 2]"
    and l: "lib_logpdf_sum ?lib ''expon'' [0, 2] [1, 3] = Inr (- 4)"
    by (simp_all add: stub_library_def)
  have gf: "fit_family ?lib [1, 3] ''gamma'' = Inl (LibraryError ''gamma'')"
    by (simp add: fit_family_def g and_then_Inl)
  from fit_distributions_batch [OF d, of ?lib "[''gamma'', ''expon'']"]
  obtain results printed where
    r: "fit_distributions ?lib [1, 3] [''gamma'', ''expon''] = Inr (results, printed)"
    and ok: "\<forall>name \<in> set [''gamma'', ''expon'']. \<forall>params ll.
              lib_fit ?lib name [1, 3] = Inr params \<longrightarrow>
              lib_logpdf_sum ?lib name params [1, 3] = Inr ll \<longrightarrow>
              map_of results name =
                Some \<lparr>f_params = params, f_dist_object = name, f_log_likelihood = ll,
                      f_aic = 2 * real (length params) - 2 * ll,
                      f_bic = real (length params) * ln (real (length [1, 3 :: real])) - 2 * ll\<rparr>"
    and bad: "\<forall>name e. fit_family ?lib [1, 3] name = Inl e \<longrightarrow> map_of results name = None"
    by (elim exE conjE)
  have "map_of results ''expon'' =
          Some \<lparr>f_params = [0, 2], f_dist_object = ''expon'', f_log_likelihood = - 4,
                f_aic = 12, f_bic = 2 * ln 2 + 8\<rparr>"
    using ok e l by simp
  moreover have "map_of results ''gamma'' = None" using bad gf by blast
  ultimately show ?thesis using d g e l r by blast
qed

section \<open>The chi-square test\<close>

lemma mask_select_zip:
  assumes "length xs = length es"
  shows "mask_select (map P es) xs = map fst (filter (\<lambda>(x, e). P e) (zip xs es))"
  using assms by (induction xs es rule: list_induct2) simp_all

lemma mask_select_self: "mask_select (map P es) es = filter P es"
  by (induction es) simp_all

lemma filter_snd_zip:
  assumes "length xs = length es"
  shows "map snd (filter (\<lambda>(x, e). P e) (zip xs es)) = filter P es"
  using assms by (induction xs es rule: list_induct2) simp_all

lemma goodness_of_fit_tests_value:
  assumes "(case dist_arg of DistName name \<Rightarrow> lib_cdf lib name | DistObject f \<Rightarrow> Inr f) = Inr cdf"
    and "lib_kstest lib data (cdf params) = Inr (ks_stat, ks_pvalue)"
    and "lib_histogram lib data = Inr (observed, bin_edges)"
    and "length bin_edges = length observed + 1"
    and "lib_chisquare lib
           (map (real \<circ> fst) (surviving_bins cdf params observed bin_edges (length data)))
           (map snd (surviving_bins cdf params observed bin_edges (length data)))
         = Inr (chi2_stat, chi2_pvalue)"
  shows "goodness_of_fit_tests lib data dist_arg params =
           Inr [(''ks_statistic'', ks_stat), (''ks_pvalue'', ks_pvalue),
                (''chi2_statistic'', chi2_stat), (''chi2_pvalue'', chi2_pvalue)]"
proof -
  let ?expected = "expected_counts cdf params bin_edges (length data)"
  have len: "length observed = length ?expected"
    using assms(4) by (simp add: expected_counts_def)
  have obs: "mask_select (map (\<lambda>e. 5 < e) ?expected) (map real observed) =
             map (real \<circ> fst) (surviving_bins cdf params observed bin_edges (length data))"
  proof -
    have "mask_select (map (\<lambda>e. 5 < e) ?expected) (map real observed) =
          map fst (filter (\<lambda>(x, e). 5 < e) (zip (map real observed) ?expected))"
      using len by (intro mask_select_zip) simp
    also have "zip (map real observed) ?expected = map (\<lambda>(x, e). (real x, e)) (zip observed ?expected)"
      by (simp add: zip_map1)
    also have "map fst (filter (\<lambda>(x, e). 5 < e) (map (\<lambda>(x, e). (real x, e)) (zip observed ?expected))) =
               map (real \<circ> fst) (filter (\<lambda>(x, e). 5 < e) (zip observed ?expected))"
      by (induction "zip observed ?expected") (auto simp: filter_map comp_def split_def)
    finally show ?thesis by (simp add: surviving_bins_def)
  qed
  have exp: "mask_select (map (\<lambda>e. 5 < e) ?expected) ?expected =
             map snd (surviving_bins cdf params observed bin_edges (length data))"
    using len by (simp add: mask_select_self surviving_bins_def filter_snd_zip)
  show ?thesis
    unfolding goodness_of_fit_tests_def assms(1) and_then_Inr assms(2) prod.case assms(3) Let_def
    using len assms(5) by (simp add: obs exp and_then_Inr)
qed

text \<open>
  Claim C8, as amended. In the chi-square test the bins whose expected count is at most 5
  are excluded: the statistic and the p-value are what the library computes from the
  observed and expected counts of the bins with expected count above 5. They are
  returned as they are, however few bins are left; the result always consists of the four
  entries \<open>ks_statistic\<close>, \<open>ks_pvalue\<close>, \<open>chi2_statistic\<close>, \<open>chi2_pvalue\<close>, and
  nothing in it marks a test as degenerate.
\<close>

theorem chi_square_on_surviving_bins:
  assumes "(case dist_arg of DistName name \<Rightarrow> lib_cdf lib name | DistObject f \<Rightarrow> Inr f) = Inr cdf"
    and "lib_kstest lib data (cdf params) = Inr (ks_stat, ks_pvalue)"
    and "lib_histogram lib data = Inr (observed, bin_edges)"
    and "length bin_edges = length observed + 1"
    and "lib_chisquare lib
           (map (real \<circ> fst) (surviving_bins cdf params observed bin_edges (length data)))
           (map snd (surviving_bins cdf params observed bin_edges (length data)))
         = Inr (chi2_stat, chi2_pvalue)"
  shows "goodness_of_fit_tests lib data dist_arg params =
           Inr [(''ks_statistic'', ks_stat), (''ks_pvalue'', ks_pvalue),
                (''chi2_statistic'', chi2_stat), (''chi2_pvalue'', chi2_pvalue)]"
  using assms by (rule goodness_of_fit_tests_value)

lemma expected_uniform:
  "expected_counts uniform_cdf [] unit_edges 3 = replicate 20 (3 / 20)"
  by (simp add: expected_counts_def unit_edges_def uniform_cdf_def upt_conv_Cons numeral_eq_Suc)

lemma expected_two_point:
  "expected_counts two_point_cdf [] unit_edges 12 = (replicate 20 0) [0 := 6, 19 := 6]"
  by (simp add: expected_counts_def unit_edges_def two_point_cdf_def upt_conv_Cons numeral_eq_Suc)

lemma surviving_uniform:
  "surviving_bins uniform_cdf [] (fst sparse_histogram) (snd sparse_histogram) 3 = []"
  unfolding surviving_bins_def sparse_histogram_def fst_conv snd_conv expected_uniform
  by (simp add: numeral_eq_Suc)

lemma surviving_two_point:
  "surviving_bins two_point_cdf [] (fst two_point_histogram) (snd two_point_histogram) 12 =
     [(6, 6), (6, 6)]"
  unfolding surviving_bins_def two_point_histogram_def fst_conv snd_conv expected_two_point
  by (simp add: numeral_eq_Suc)

text \<open>
  Claim C8 as stated fails. For the sample \<open>[0, 1/2, 1]\<close> and the uniform distribution
  on \<open>[0, 1]\<close> every expected count is \<open>3/20\<close>, so no bin is left; the result is an
  ordinary one, with the statistic 0 of an empty sum, and has no mark of a degenerate test.
\<close>

theorem chi_square_degenerate_unflagged:
  "surviving_bins uniform_cdf [] (fst sparse_histogram) (snd sparse_histogram) (length [0, 1 / 2, 1 :: real]) = [] \<and>
   goodness_of_fit_tests (stub_library sparse_histogram) [0, 1 / 2, 1] (DistObject uniform_cdf) [] =
     Inr [(''ks_statistic'', Num 0), (''ks_pvalue'', Num 1),
          (''chi2_statistic'', Num 0), (''chi2_pvalue'', NaN)]"
proof -
  have n: "length [0, 1 / 2, 1 :: real] = 3" by simp
  have s: "surviving_bins uniform_cdf [] (fst sparse_histogram) (snd sparse_histogram) 3 = []"
    by (rule surviving_uniform)
  have "goodness_of_fit_tests (stub_library sparse_histogram) [0, 1 / 2, 1] (DistObject uniform_cdf) [] =
     Inr [(''ks_statistic'', Num 0), (''ks_pvalue'', Num 1),
          (''chi2_statistic'', Num 0), (''chi2_pvalue'', NaN)]"
  proof (rule goodness_of_fit_tests_value [where cdf = uniform_cdf
        and observed = "fst sparse_histogram" and bin_edges = "snd sparse_histogram"])
    show "(case DistObject uniform_cdf of DistName name \<Rightarrow> lib_cdf (stub_library sparse_histogram) name
           | DistObject f \<Rightarrow> Inr f) = Inr uniform_cdf" by simp
    show "lib_kstest (stub_library sparse_histogram) [0, 1 / 2, 1] (uniform_cdf []) = Inr (Num 0, Num 1)"
      by (simp add: stub_library_def)
    show "lib_histogram (stub_library sparse_histogram) [0, 1 / 2, 1] =
          Inr (fst sparse_histogram, snd sparse_histogram)"
      by (simp add: stub_library_def)
    show "length (snd sparse_histogram) = length (fst sparse_histogram) + 1"
      by (simp add: sparse_histogram_def unit_edges_def)
    show "lib_chisquare (stub_library sparse_histogram)
           (map (real \<circ> fst) (surviving_bins uniform_cdf [] (fst sparse_histogram) (snd sparse_histogram)
              (length [0, 1 / 2, 1 :: real])))
           (map snd (surviving_bins uniform_cdf [] (fst sparse_histogram) (snd sparse_histogram)
              (length [0, 1 / 2, 1 :: real])))
         = Inr (Num 0, NaN)"
      unfolding n s by (simp add: stub_library_def)
  qed
  then show ?thesis unfolding n using s by simp
qed

theorem chi_square_on_surviving_bins_witness:
  "surviving_bins two_point_cdf [] (fst two_point_histogram) (snd two_point_histogram)
     (length (replicate 6 0 @ replicate 6 (1 :: real))) = [(6, 6), (6, 6)] \<and>
   goodness_of_fit_tests (stub_library two_point_histogram) (replicate 6 0 @ replicate 6 1)
     (DistObject two_point_cdf) [] =
     Inr [(''ks_statistic'', Num 0), (''ks_pvalue'', Num 1),
          (''chi2_statistic'', Num 0), (''chi2_pvalue'', Num 1)]"
proof -
  have n: "length (replicate 6 0 @ replicate 6 (1 :: real)) = 12" by simp
  have s: "surviving_bins two_point_cdf [] (fst two_point_histogram) (snd two_point_histogram) 12 =
     [(6, 6), (6, 6)]"
    by (rule surviving_two_point)
  have "goodness_of_fit_tests (stub_library two_point_histogram) (replicate 6 0 @ replicate 6 1)
     (DistObject two_point_cdf) [] =
     Inr [(''ks_statistic'', Num 0), (''ks_pvalue'', Num 1),
          (''chi2_statistic'', Num 0), (''chi2_pvalue'', Num 1)]"
  proof (rule chi_square_on_surviving_bins [where cdf = two_point_cdf
        and observed = "fst two_point_histogram" and bin_edges = "snd two_point_histogram"])
    show "(case DistObject two_point_cdf of DistName name \<Rightarrow> lib_cdf (stub_library two_point_histogram) name
           | DistObject f \<Rightarrow> Inr f) = Inr two_point_cdf" by simp
    show "lib_kstest (stub_library two_point_histogram) (replicate 6 0 @ replicate 6 1) (two_point_cdf [])
          = Inr (Num 0, Num 1)"
      by (simp add: stub_library_def)
    show "lib_histogram (stub_library two_point_histogram) (replicate 6 0 @ replicate 6 1) =
          Inr (fst two_point_histogram, snd two_point_histogram)"
      by (simp add: stub_library_def)
    show "length (snd two_point_histogram) = length (fst two_point_histogram) + 1"
      by (simp add: two_point_histogram_def unit_edges_def)
    show "lib_chisquare (stub_library two_point_histogram)
           (map (real \<circ> fst) (surviving_bins two_point_cdf [] (fst two_point_histogram)
              (snd two_point_histogram) (length (replicate 6 0 @ replicate 6 (1 :: real)))))
           (map snd (surviving_bins two_point_cdf [] (fst two_point_histogram)
              (snd two_point_histogram) (length (replicate 6 0 @ replicate 6 (1 :: real)))))
         = Inr (Num 0, Num 1)"
      unfolding n s by (simp add: stub_library_def)
  qed
  then show ?thesis unfolding n using s by simp
qed

lemma criterion_value_field:
  assumes "criterion = ''aic'' \<or> criterion = ''bic''"
  shows "criterion_value info criterion = Inr (criterion_field criterion info)"
  using assms by (auto simp: criterion_value_def criterion_field_def)

lemma best_loop_least:
  assumes "criterion = ''aic'' \<or> criterion = ''bic''" "least_of criterion S b"
  shows "\<exists>b'. best_loop criterion xs b = Inr b' \<and> least_of criterion (S \<union> set xs) b'"
  using assms(2)
proof (induction xs arbitrary: b S)
  case Nil
  then show ?case by simp
next
  case (Cons x xs)
  obtain name info where x: "x = (name, info)" by (cases x)
  let ?v = "criterion_field criterion info"
  let ?new = "Some (name, f_params info, ?v)"
  have cv: "criterion_value info criterion = Inr ?v"
    using assms(1) by (rule criterion_value_field)
  show ?case
  proof (cases b)
    case None
    then have "S = {}" using Cons.prems by (simp add: least_of_def)
    then have "least_of criterion (S \<union> {x}) ?new"
      by (simp add: least_of_def x)
    from Cons.IH [OF this] show ?thesis by (simp add: x cv None)
  next
    case (Some t)
    obtain bn bp bv where t: "t = (bn, bp, bv)" by (cases t)
    obtain bi where bi: "(bn, bi) \<in> S" "bp = f_params bi" "bv = criterion_field criterion bi"
      and least: "\<forall>(name', info') \<in> S. bv \<le> criterion_field criterion info'"
      using Cons.prems by (auto simp: least_of_def Some t)
    show ?thesis
    proof (cases "?v < bv")
      case True
      have "least_of criterion (S \<union> {x}) ?new"
        using least True by (fastforce simp: least_of_def x)
      from Cons.IH [OF this] show ?thesis using True by (simp add: x cv Some t)
    next
      case False
      have "least_of criterion (S \<union> {x}) b"
        using least False bi by (fastforce simp: least_of_def x Some t)
      from Cons.IH [OF this] show ?thesis using False by (simp add: x cv Some t)
    qed
  qed
qed

lemma get_best_cached:
  assumes "fitted \<noteq> []"
  shows "get_best_distribution lib fitted data criterion =
         and_then (best_loop criterion fitted None) (\<lambda>b. Inr (b, fitted))"
  using assms by (simp add: get_best_distribution_def and_then_Inr)

section \<open>The cache of \<open>get_best_distribution\<close>\<close>

text \<open>
  Claim C9, as amended. If the cache \<open>fitted_distributions\<close> is not empty (an earlier
  \<open>fit_distributions\<close> has left at least one fit), \<open>get_best_distribution\<close> ignores its
  data argument and the library: nothing is fitted again, the cache is unchanged, and for
  the criteria \<open>aic\<close> and \<open>bic\<close> the answer is a cached family whose criterion value is
  least among the cached fits.
\<close>

theorem get_best_distribution_uses_cache:
  assumes "fitted \<noteq> []"
  shows "get_best_distribution lib fitted data criterion =
           get_best_distribution lib' fitted data' criterion \<and>
         (criterion = ''aic'' \<or> criterion = ''bic'' \<longrightarrow>
            (\<exists>b. get_best_distribution lib fitted data criterion = Inr (b, fitted) \<and>
                 least_of criterion (set fitted) b \<and> b \<noteq> None))"
proof -
  have "\<exists>b. get_best_distribution lib fitted data criterion = Inr (b, fitted) \<and>
            least_of criterion (set fitted) b \<and> b \<noteq> None"
    if c: "criterion = ''aic'' \<or> criterion = ''bic''"
  proof -
    have "least_of criterion {} None" by (simp add: least_of_def)
    from best_loop_least [OF c this, of fitted]
    obtain b where b: "best_loop criterion fitted None = Inr b"
      and l: "least_of criterion (set fitted) b" by auto
    have "b \<noteq> None" using l assms by (cases b) (auto simp: least_of_def)
    then show ?thesis using b l by (simp add: get_best_cached [OF assms] and_then_Inr)
  qed
  then show ?thesis by (simp add: get_best_cached [OF assms])
qed

theorem get_best_distribution_uses_cache_witness:
  "cached_fits \<noteq> [] \<and>
   get_best_distribution (stub_library ([], [])) cached_fits [1] ''aic'' =
     Inr (Some (''gamma'', [1, 0, 2], 10), cached_fits) \<and>
   get_best_distribution (stub_library ([], [])) cached_fits [2, 5] ''aic'' =
     Inr (Some (''gamma'', [1, 0, 2], 10), cached_fits)"
proof -
  have ne: "cached_fits \<noteq> []" by (simp add: cached_fits_def)
  have "get_best_distribution (stub_library ([], [])) cached_fits [1] ''aic'' =
        Inr (Some (''gamma'', [1, 0, 2], 10), cached_fits)"
    by (simp add: get_best_distribution_def cached_fits_def criterion_value_def and_then_Inr)
  with get_best_distribution_uses_cache [OF ne, of "stub_library ([], [])" "[1]" "''aic''"
      "stub_library ([], [])" "[2, 5]"] ne
  show ?thesis by simp
qed

text \<open>
  Claim C9 as stated fails. After \<open>fit_distributions\<close> has been called with an empty list
  of families the cache is empty, and \<open>get_best_distribution\<close> fits its own data argument:
  its answer for the sample \<open>[1]\<close> differs from its answer for the sample \<open>[2]\<close>.
\<close>

theorem get_best_distribution_refits_empty_cache:
  "fit_distributions (stub_library ([], [])) [5] [] = Inr ([], []) \<and>
   get_best_distribution (stub_library ([], [])) [] [1] ''aic'' =
     Inr (Some (''expon'', [0, 1], 6),
          [(''expon'', \<lparr>f_params = [0, 1], f_dist_object = ''expon'', f_log_likelihood = - 1,
                         f_aic = 6, f_bic = 2\<rparr>)]) \<and>
   get_best_distribution (stub_library ([], [])) [] [2] ''aic'' =
     Inr (Some (''expon'', [0, 2], 8),
          [(''expon'', \<lparr>f_params = [0, 2], f_dist_object = ''expon'', f_log_likelihood = - 2,
                         f_aic = 8, f_bic = 4\<rparr>)]) \<and>
   get_best_distribution (stub_library ([], [])) [] [1] ''aic'' \<noteq>
     get_best_distribution (stub_library ([], [])) [] [2] ''aic''"
  by (simp add: fit_distributions_def get_best_distribution_def default_distributions_def
      fit_family_def stub_library_def criterion_value_def and_then_def)

section \<open>Successive runs of one simulator\<close>

lemma record_samples:
  assumes "well_placed sim h"
  shows "well_placed sim (foldl (record_sample sim) h tr) \<and>
         foldl (record_sample sim) h tr ! sim_wait_times sim = h ! sim_wait_times sim @ wait_samples tr \<and>
         foldl (record_sample sim) h tr ! sim_system_times sim = h ! sim_system_times sim @ system_samples tr \<and>
         foldl (record_sample sim) h tr ! sim_queue_lengths sim = h ! sim_queue_lengths sim @ queue_samples tr"
  using assms
proof (induction tr arbitrary: h)
  case Nil
  then show ?case by simp
next
  case (Cons x tr)
  have wp: "well_placed sim (record_sample sim h x)"
    using Cons.prems by (cases x) (simp_all add: well_placed_def list_append_def)
  from Cons.IH [OF wp] Cons.prems show ?case
    by (cases x) (simp_all add: well_placed_def list_append_def)
qed

lemma init_well_placed:
  assumes "QueueSimulator_init h0 lam mu c T = (h1, sim)"
  shows "well_placed sim h1" "h1 ! sim_wait_times sim = []" "h1 ! sim_system_times sim = []"
    "h1 ! sim_queue_lengths sim = []"
    "sim_lambda_rate sim = lam" "sim_mu_rate sim = mu" "sim_c_servers sim = c" "sim_sim_time sim = T"
  using assms by (auto simp: QueueSimulator_init_def well_placed_def nth_append)

lemma run_simulation_value:
  assumes "well_placed sim h" "sim_mu_rate sim \<noteq> 0"
    and "run seed (sim_lambda_rate sim) (sim_mu_rate sim) (sim_c_servers sim) (sim_sim_time sim) = (tr, None)"
  shows "\<exists>res. run_simulation run sim seed h = (foldl (record_sample sim) h tr, Inr res) \<and>
           res_wait_times res = sim_wait_times sim \<and>
           res_system_times res = sim_system_times sim \<and>
           res_queue_lengths res = sim_queue_lengths sim \<and>
           total_customers res = length (h ! sim_wait_times sim @ wait_samples tr) \<and>
           Wq_simulated res = np_mean (h ! sim_wait_times sim @ wait_samples tr)"
  using assms(2,3) record_samples [OF assms(1), of tr]
  by (simp add: run_simulation_def Let_def py_div_def and_then_Inr)

text \<open>
  Claim C5. The claim is that two runs with the same seed and parameters give identical
  sample sequences, also when they are two successive calls of \<open>run_simulation\<close> on the
  same simulator. \<open>run_simulation\<close> never empties the lists that \<open>__init__\<close> created:
  the second call appends to what the first one left. After the first call of a new
  simulator the three sequences are the samples of the run; after the second call they
  are those samples twice, \<open>total_customers\<close> has doubled, and the lists of the first
  result, being the same objects, have changed with them.
\<close>

theorem run_simulation_accumulates:
  assumes "QueueSimulator_init h0 lam mu c T = (h1, sim)"
    and "run seed lam mu c T = (tr, None)" and "mu \<noteq> 0"
    and "run_simulation run sim seed h1 = (h2, r1)"
    and "run_simulation run sim seed h2 = (h3, r2)"
  shows "\<exists>res1 res2. r1 = Inr res1 \<and> r2 = Inr res2 \<and>
           h2 ! res_wait_times res1 = wait_samples tr \<and>
           h2 ! res_system_times res1 = system_samples tr \<and>
           h2 ! res_queue_lengths res1 = queue_samples tr \<and>
           total_customers res1 = length (wait_samples tr) \<and>
           h3 ! res_wait_times res2 = wait_samples tr @ wait_samples tr \<and>
           h3 ! res_system_times res2 = system_samples tr @ system_samples tr \<and>
           h3 ! res_queue_lengths res2 = queue_samples tr @ queue_samples tr \<and>
           total_customers res2 = 2 * length (wait_samples tr) \<and>
           h3 ! res_wait_times res1 = wait_samples tr @ wait_samples tr"
proof -
  note i = init_well_placed [OF assms(1)]
  have run: "run seed (sim_lambda_rate sim) (sim_mu_rate sim) (sim_c_servers sim) (sim_sim_time sim)
             = (tr, None)"
    using assms(2) by (simp add: i)
  have mu: "sim_mu_rate sim \<noteq> 0" using assms(3) by (simp add: i)
  from run_simulation_value [where run = run and seed = seed, OF i(1) mu run] assms(4)
  obtain res1 where r1: "r1 = Inr res1" and h2: "h2 = foldl (record_sample sim) h1 tr"
    and a1: "res_wait_times res1 = sim_wait_times sim" "res_system_times res1 = sim_system_times sim"
      "res_queue_lengths res1 = sim_queue_lengths sim"
    and t1: "total_customers res1 = length (h1 ! sim_wait_times sim @ wait_samples tr)"
    by auto
  note s2 = record_samples [OF i(1), of tr, folded h2]
  from run_simulation_value [where run = run and seed = seed, OF s2 [THEN conjunct1] mu run] assms(5)
  obtain res2 where r2: "r2 = Inr res2" and h3: "h3 = foldl (record_sample sim) h2 tr"
    and a2: "res_wait_times res2 = sim_wait_times sim" "res_system_times res2 = sim_system_times sim"
      "res_queue_lengths res2 = sim_queue_lengths sim"
    and t2: "total_customers res2 = length (h2 ! sim_wait_times sim @ wait_samples tr)"
    by auto
  note s3 = record_samples [OF s2 [THEN conjunct1], of tr, folded h3]
  show ?thesis
    using r1 r2 a1 a2 t1 t2 s2 s3 i(2,3,4) by simp
qed

lemma fresh_init: "QueueSimulator_init [] 1 2 1 1 = ([[], [], []], fresh_simulator)"
  by (simp add: QueueSimulator_init_def fresh_simulator_def)

lemma first_run:
  "run_simulation one_customer_run fresh_simulator 42 [[], [], []] =
     ([[0], [1 / 2], [0]], Inr first_result)"
  by (simp add: run_simulation_def one_customer_run_def fresh_simulator_def first_result_def
      list_append_def np_mean_def np_add_def py_div_def and_then_Inr Let_def)

lemma second_run:
  "run_simulation one_customer_run fresh_simulator 42 [[0], [1 / 2], [0]] =
     ([[0, 0], [1 / 2, 1 / 2], [0, 0]], Inr (first_result\<lparr>total_customers := 2\<rparr>))"
  by (simp add: run_simulation_def one_customer_run_def fresh_simulator_def first_result_def
      list_append_def np_mean_def np_add_def py_div_def and_then_Inr Let_def)

theorem run_simulation_accumulates_witness:
  "QueueSimulator_init [] 1 2 1 1 = ([[], [], []], fresh_simulator) \<and>
   one_customer_run 42 1 2 1 1 = ([QueueLength 0, WaitTime 0, SystemTime (1 / 2)], None) \<and>
   run_simulation one_customer_run fresh_simulator 42 [[], [], []] =
     ([[0], [1 / 2], [0]], Inr first_result) \<and>
   run_simulation one_customer_run fresh_simulator 42 [[0], [1 / 2], [0]] =
     ([[0, 0], [1 / 2, 1 / 2], [0, 0]], Inr (first_result\<lparr>total_customers := 2\<rparr>)) \<and>
   [[0], [1 / 2], [0]] ! res_wait_times first_result = [0 :: real] \<and>
   [[0, 0], [1 / 2, 1 / 2], [0, 0]] ! res_wait_times (first_result\<lparr>total_customers := 2\<rparr>) = [0, 0 :: real] \<and>
   [[0, 0], [1 / 2, 1 / 2], [0, 0]] ! res_wait_times first_result = [0, 0 :: real] \<and>
   total_customers first_result = 1 \<and>
   total_customers (first_result\<lparr>total_customers := 2\<rparr>) = 2"
proof -
  have e: "one_customer_run 42 1 2 1 1 = ([QueueLength 0, WaitTime 0, SystemTime (1 / 2)], None)"
    by (simp add: one_customer_run_def)
  have mu: "(2 :: real) \<noteq> 0" by simp
  from run_simulation_accumulates [OF fresh_init e mu first_run second_run]
  show ?thesis using fresh_init e first_run second_run by auto
qed

lemma record_samples_frame:
  assumes "a \<noteq> sim_wait_times sim" "a \<noteq> sim_system_times sim" "a \<noteq> sim_queue_lengths sim"
  shows "foldl (record_sample sim) h tr ! a = h ! a"
proof (induction tr arbitrary: h)
  case Nil
  then show ?case by simp
next
  case (Cons x tr)
  have "record_sample sim h x ! a = h ! a"
    using assms by (cases x) (simp_all add: list_append_def)
  then show ?case using Cons by simp
qed

text \<open>
  Two simulators built with the same parameters, each run once with the same seed, return
  the same three sample sequences, the same \<open>total_customers\<close> and the same mean wait;
  the second run leaves the lists of the first simulator as they were.
\<close>

theorem fresh_simulators_agree:
  assumes "QueueSimulator_init h0 lam mu c T = (h1, sim)"
    and "run_simulation run sim seed h1 = (h2, r)"
    and "QueueSimulator_init h2 lam mu c T = (h3, sim')"
    and "run_simulation run sim' seed h3 = (h4, r')"
    and "run seed lam mu c T = (tr, None)" and "mu \<noteq> 0"
  shows "\<exists>res res'. r = Inr res \<and> r' = Inr res' \<and>
           h4 ! res_wait_times res = wait_samples tr \<and> h4 ! res_wait_times res' = wait_samples tr \<and>
           h4 ! res_system_times res = system_samples tr \<and>
           h4 ! res_system_times res' = system_samples tr \<and>
           h4 ! res_queue_lengths res = queue_samples tr \<and>
           h4 ! res_queue_lengths res' = queue_samples tr \<and>
           total_customers res = total_customers res' \<and>
           Wq_simulated res = Wq_simulated res'"
proof -
  note i = init_well_placed [OF assms(1)]
  note i' = init_well_placed [OF assms(3)]
  have run: "run seed (sim_lambda_rate sim) (sim_mu_rate sim) (sim_c_servers sim) (sim_sim_time sim)
             = (tr, None)"
    using assms(5) by (simp add: i)
  have run': "run seed (sim_lambda_rate sim') (sim_mu_rate sim') (sim_c_servers sim') (sim_sim_time sim')
             = (tr, None)"
    using assms(5) by (simp add: i')
  have mu: "sim_mu_rate sim \<noteq> 0" "sim_mu_rate sim' \<noteq> 0" using assms(6) by (simp_all add: i i')
  from run_simulation_value [where run = run and seed = seed, OF i(1) mu(1) run] assms(2)
  obtain res where r: "r = Inr res" and h2: "h2 = foldl (record_sample sim) h1 tr"
    and a: "res_wait_times res = sim_wait_times sim" "res_system_times res = sim_system_times sim"
      "res_queue_lengths res = sim_queue_lengths sim"
    and t: "total_customers res = length (h1 ! sim_wait_times sim @ wait_samples tr)"
    and w: "Wq_simulated res = np_mean (h1 ! sim_wait_times sim @ wait_samples tr)"
    by auto
  note s2 = record_samples [OF i(1), of tr, folded h2]
  from run_simulation_value [where run = run and seed = seed, OF i'(1) mu(2) run'] assms(4)
  obtain res' where r': "r' = Inr res'" and h4: "h4 = foldl (record_sample sim') h3 tr"
    and a': "res_wait_times res' = sim_wait_times sim'" "res_system_times res' = sim_system_times sim'"
      "res_queue_lengths res' = sim_queue_lengths sim'"
    and t': "total_customers res' = length (h3 ! sim_wait_times sim' @ wait_samples tr)"
    and w': "Wq_simulated res' = np_mean (h3 ! sim_wait_times sim' @ wait_samples tr)"
    by auto
  note s4 = record_samples [OF i'(1), of tr, folded h4]
  have len: "sim_wait_times sim < length h2" "sim_system_times sim < length h2"
    "sim_queue_lengths sim < length h2"
    using s2 by (simp_all add: well_placed_def)
  have addr: "sim_wait_times sim' = length h2" "sim_system_times sim' = length h2 + 1"
    "sim_queue_lengths sim' = length h2 + 2" "h3 = h2 @ [[], [], []]"
    using assms(3) by (auto simp: QueueSimulator_init_def)
  have old: "h4 ! a = h2 ! a" if "a < length h2" for a
  proof -
    have "h4 ! a = h3 ! a"
      unfolding h4 using that addr by (intro record_samples_frame) simp_all
    then show ?thesis using that addr by (simp add: nth_append)
  qed
  show ?thesis
    using r r' a a' t t' w w' s2 s4 i(2,3,4) i'(2,3,4) old len by simp
qed

lemma upto_as_upt:
  assumes "0 \<le> c"
  shows "[0 .. c - 1] = map int [0 ..< nat c]"
  using assms
proof (induction "nat c" arbitrary: c)
  case 0
  then show ?case by simp
next
  case (Suc n)
  then have n: "n = nat (c - 1)" and c: "0 \<le> c - 1" by linarith+
  have "[0 .. c - 1] = [0 .. c - 1 - 1] @ [c - 1]"
    using c by (intro upto_rec2) simp
  also have "[0 .. c - 1 - 1] = map int [0 ..< nat (c - 1)]"
    using Suc.hyps(1) [OF n c] .
  finally show ?case
    using Suc.hyps(2) [symmetric] n c by simp
qed

lemma sum_value_as_sum:
  assumes "1 \<le> c"
  shows "sum_value lam mu c = (\<Sum>n < nat c. (lam / mu) ^ n / fact n)"
proof -
  have "[0 .. c - 1] = map int [0 ..< nat c]"
    using assms by (intro upto_as_upt) simp
  then show ?thesis
    by (simp add: sum_value_def comp_def sum_list_sum_nth atLeast0LessThan)
qed

section \<open>The empty-system probability\<close>

text \<open>
  Claim C2, as amended. For every stable configuration (\<open>\<lambda> > 0\<close>, \<open>\<mu> > 0\<close>,
  \<open>c \<ge> 1\<close>, \<open>\<rho> < 1\<close>) \<open>calculate_metrics\<close> evaluates every term of the sum by a power
  and a factorial of its own. When the power \<open>(\<lambda>/\<mu>)\<^sup>c\<close> is within the doubles it returns,
  in exact arithmetic,
  \<open>P0 = 1 / (\<Sum>n<c. (\<lambda>/\<mu>)\<^sup>n / n! + (\<lambda>/\<mu>)\<^sup>c / c! * 1 / (1 - \<rho>))\<close> and
  \<open>Pw = (\<lambda>/\<mu>)\<^sup>c / c! * 1 / (1 - \<rho>) * P0\<close>; when that power is beyond the doubles it
  raises \<open>OverflowError\<close>.
\<close>

theorem p0_closed_form:
  assumes "0 < lam" "0 < mu" "1 \<le> c"
    and "MMcQueue_init lam mu c = Inr q" and "is_stable q"
  shows "((lam / mu) ^ nat c \<le> float_max \<longrightarrow>
            (\<exists>m. calculate_metrics q = Inr (Stable m) \<and>
                 m_P0 m = 1 / ((\<Sum>n < nat c. (lam / mu) ^ n / fact n) +
                                (lam / mu) ^ nat c / fact (nat c) * (1 / (1 - lam / (of_int c * mu)))) \<and>
                 m_Pw_erlang_c m =
                   (lam / mu) ^ nat c / fact (nat c) * (1 / (1 - lam / (of_int c * mu))) * m_P0 m)) \<and>
         (float_max < (lam / mu) ^ nat c \<longrightarrow> calculate_metrics q = Inl OverflowError)"
proof (intro conjI impI)
  note q = MMcQueue_init_fields [OF assms(4)]
  {
    assume "(lam / mu) ^ nat c \<le> float_max"
    then have m: "calculate_metrics q = Inr (Stable (stable_metrics q))"
      using assms q(1,2,3) by (intro calculate_metrics_stable) (simp_all add: is_stable_def)
    show "\<exists>m. calculate_metrics q = Inr (Stable m) \<and>
                 m_P0 m = 1 / ((\<Sum>n < nat c. (lam / mu) ^ n / fact n) +
                                (lam / mu) ^ nat c / fact (nat c) * (1 / (1 - lam / (of_int c * mu)))) \<and>
                 m_Pw_erlang_c m =
                   (lam / mu) ^ nat c / fact (nat c) * (1 / (1 - lam / (of_int c * mu))) * m_P0 m"
      using m sum_value_as_sum [OF assms(3), of lam mu]
      by (simp add: stable_metrics_def Let_def p0_value_def erlang_value_def q)
  }
  assume "float_max < (lam / mu) ^ nat c"
  then have "float_max < \<bar>(q_lambda_rate q / q_mu_rate q) ^ nat (q_c q)\<bar>"
    by (simp add: q(1,2,3))
  then show "calculate_metrics q = Inl OverflowError"
    using assms by (intro calculate_metrics_overflow) (simp_all add: q(1,2,3) is_stable_def)
qed

theorem p0_closed_form_witness:
  "MMcQueue_init 1 1 2 = Inr \<lparr>q_lambda_rate = 1, q_mu_rate = 1, q_c = 2, q_rho = 1 / 2\<rparr> \<and>
   is_stable \<lparr>q_lambda_rate = 1, q_mu_rate = 1, q_c = 2, q_rho = 1 / 2\<rparr> \<and>
   (1 / 1 :: real) ^ nat 2 \<le> float_max \<and>
   (\<exists>m. calculate_metrics \<lparr>q_lambda_rate = 1, q_mu_rate = 1, q_c = 2, q_rho = 1 / 2\<rparr>
          = Inr (Stable m) \<and> m_P0 m = 1 / 3 \<and> m_Pw_erlang_c m = 1 / 3)"
proof -
  have i: "MMcQueue_init 1 1 2 = Inr \<lparr>q_lambda_rate = 1, q_mu_rate = 1, q_c = 2, q_rho = 1 / 2\<rparr>"
    by (simp add: MMcQueue_init_def py_div_def and_then_def)
  have s: "is_stable \<lparr>q_lambda_rate = 1, q_mu_rate = 1, q_c = 2, q_rho = 1 / 2\<rparr>"
    by (simp add: is_stable_def)
  have r: "(1 / 1 :: real) ^ nat 2 \<le> float_max"
    using one_le_float_max by simp
  have "(0::real) < 1" "(1::int) \<le> 2" by simp_all
  from p0_closed_form [OF this(1) this(1) this(2) i s, THEN conjunct1, rule_format, OF r]
  obtain m where m: "calculate_metrics \<lparr>q_lambda_rate = 1, q_mu_rate = 1, q_c = 2, q_rho = 1 / 2\<rparr>
      = Inr (Stable m)"
    and p: "m_P0 m = 1 / ((\<Sum>n < nat 2. (1 / 1) ^ n / fact n) +
                          (1 / 1) ^ nat 2 / fact (nat 2) * (1 / (1 - 1 / (of_int 2 * 1))))"
    and w: "m_Pw_erlang_c m =
             (1 / 1) ^ nat 2 / fact (nat 2) * (1 / (1 - 1 / (of_int 2 * 1))) * m_P0 m"
    by (elim exE conjE)
  have "m_P0 m = 1 / 3" using p by (simp add: numeral_2_eq_2)
  moreover from this have "m_Pw_erlang_c m = 1 / 3" using w by (simp add: numeral_2_eq_2)
  ultimately show ?thesis using i s r m by blast
qed

text \<open>
  Claim C2 as stated fails. The queue with \<open>\<lambda> = 150\<close>, \<open>\<mu> = 1\<close>, \<open>c = 151\<close> is stable,
  \<open>\<rho> = 150/151\<close>, and has fewer than a few hundred servers; \<open>calculate_metrics\<close> raises
  \<open>OverflowError\<close> on it, in the power \<open>150\<^sup>n\<close> of a term of the sum.
\<close>

theorem p0_overflows:
  "MMcQueue_init 150 1 151 =
     Inr \<lparr>q_lambda_rate = 150, q_mu_rate = 1, q_c = 151, q_rho = 150 / 151\<rparr> \<and>
   is_stable \<lparr>q_lambda_rate = 150, q_mu_rate = 1, q_c = 151, q_rho = 150 / 151\<rparr> \<and>
   calculate_metrics \<lparr>q_lambda_rate = 150, q_mu_rate = 1, q_c = 151, q_rho = 150 / 151\<rparr> =
     Inl OverflowError"
proof -
  let ?q = "\<lparr>q_lambda_rate = 150, q_mu_rate = 1, q_c = 151, q_rho = 150 / 151\<rparr>"
  have i: "MMcQueue_init 150 1 151 = Inr ?q"
    by (simp add: MMcQueue_init_def py_div_def and_then_def)
  have s: "is_stable ?q" by (simp add: is_stable_def)
  have "float_max < \<bar>(q_lambda_rate ?q / q_mu_rate ?q) ^ nat (q_c ?q)\<bar>"
    using float_max_less by simp
  then have "calculate_metrics ?q = Inl OverflowError"
    by (intro calculate_metrics_overflow) simp_all
  with i s show ?thesis by simp
qed

theorem fresh_simulators_agree_witness:
  "QueueSimulator_init [] 1 2 1 1 = ([[], [], []], fresh_simulator) \<and>
   run_simulation one_customer_run fresh_simulator 42 [[], [], []] =
     ([[0], [1 / 2], [0]], Inr first_result) \<and>
   QueueSimulator_init [[0], [1 / 2], [0]] 1 2 1 1 =
     ([[0], [1 / 2], [0], [], [], []], second_simulator) \<and>
   run_simulation one_customer_run second_simulator 42 [[0], [1 / 2], [0], [], [], []] =
     ([[0], [1 / 2], [0], [0], [1 / 2], [0]],
      Inr (first_result\<lparr>res_wait_times := 3, res_system_times := 4, res_queue_lengths := 5\<rparr>)) \<and>
   total_customers first_result =
     total_customers (first_result\<lparr>res_wait_times := 3, res_system_times := 4, res_queue_lengths := 5\<rparr>)"
proof -
  have e: "one_customer_run 42 1 2 1 1 = ([QueueLength 0, WaitTime 0, SystemTime (1 / 2)], None)"
    by (simp add: one_customer_run_def)
  have mu: "(2 :: real) \<noteq> 0" by simp
  have i2: "QueueSimulator_init [[0], [1 / 2], [0]] 1 2 1 1 =
     ([[0], [1 / 2], [0], [], [], []], second_simulator)"
    by (simp add: QueueSimulator_init_def second_simulator_def fresh_simulator_def)
  have r2: "run_simulation one_customer_run second_simulator 42 [[0], [1 / 2], [0], [], [], []] =
     ([[0], [1 / 2], [0], [0], [1 / 2], [0]],
      Inr (first_result\<lparr>res_wait_times := 3, res_system_times := 4, res_queue_lengths := 5\<rparr>))"
    by (simp add: run_simulation_def one_customer_run_def second_simulator_def fresh_simulator_def
        first_result_def list_append_def np_mean_def np_add_def py_div_def and_then_Inr Let_def)
  from fresh_simulators_agree [OF fresh_init first_run i2 r2 e mu]
  show ?thesis using fresh_init first_run i2 r2 by auto
qed

end
